(* ===== verification/Transition.thy ===== *)
theory Transition
  imports Main
begin

text \<open>
  Shared machinery of the concurrent parts. Goroutines are modelled as program counters
  in a state record, one rule of a step relation per atomic action; what the scheduler
  may do is every interleaving of these rules. This theory has the reachable states, the
  contract of an invariant and of a simulation, the contract of a bounded pool of slots,
  and the counting of goroutines at a program point.
\<close>

section \<open>Reachable states and invariants\<close>

inductive reach :: "('s \<Rightarrow> bool) \<Rightarrow> ('s \<Rightarrow> 's \<Rightarrow> bool) \<Rightarrow> 's \<Rightarrow> bool"
  for init :: "'s \<Rightarrow> bool" and step :: "'s \<Rightarrow> 's \<Rightarrow> bool" where
  reach_init: "init s \<Longrightarrow> reach init step s"
| reach_step: "reach init step s \<Longrightarrow> step s t \<Longrightarrow> reach init step t"

lemma reach_rtranclp: "step\<^sup>*\<^sup>* s t \<Longrightarrow> reach init step s \<Longrightarrow> reach init step t"
  by (induction rule: rtranclp_induct) (auto simp: reach_step)

lemmas rtranclp_stepI = converse_rtranclp_into_rtranclp

locale invariant_system =
  fixes init :: "'s \<Rightarrow> bool" and step :: "'s \<Rightarrow> 's \<Rightarrow> bool" and inv :: "'s \<Rightarrow> bool"
  assumes inv_init: "init s \<Longrightarrow> inv s"
    and inv_step: "inv s \<Longrightarrow> step s t \<Longrightarrow> inv t"
begin

lemma reach_inv: "reach init step s \<Longrightarrow> inv s"
  by (induction rule: reach.induct) (auto simp: inv_init intro: inv_step)

lemma steps_inv: "step\<^sup>*\<^sup>* s t \<Longrightarrow> inv s \<Longrightarrow> inv t"
  by (induction rule: rtranclp_induct) (auto intro: inv_step)

end

text \<open>
  A simulation: every concrete step either leaves the abstract state as it is or is an
  abstract step.
\<close>

locale simulation = invariant_system init step inv
  for init :: "'s \<Rightarrow> bool" and step :: "'s \<Rightarrow> 's \<Rightarrow> bool" and inv :: "'s \<Rightarrow> bool" +
  fixes abs :: "'s \<Rightarrow> 'a" and astep :: "'a \<Rightarrow> 'a \<Rightarrow> bool"
  assumes sim_step: "inv s \<Longrightarrow> step s t \<Longrightarrow> abs t = abs s \<or> astep (abs s) (abs t)"
begin

lemma sim_steps: "step\<^sup>*\<^sup>* s t \<Longrightarrow> inv s \<Longrightarrow> astep\<^sup>*\<^sup>* (abs s) (abs t)"
proof (induction rule: rtranclp_induct)
  case (step t u)
  then have "inv t" using steps_inv by blast
  from sim_step [OF this step.hyps(2)] step.IH step.prems show ?case
    by (auto intro: rtranclp.rtrancl_into_rtrancl)
qed simp

end

section \<open>Slots\<close>

text \<open>
  What a handler needs of a limiter: \<open>acquire\<close> succeeds exactly when a slot is free, takes
  one slot when it does and changes nothing when it does not, and \<open>release\<close> gives one back.
\<close>

locale slot_pool =
  fixes acquire :: "'p \<Rightarrow> bool \<times> 'p" and release :: "'p \<Rightarrow> 'p"
    and used :: "'p \<Rightarrow> int" and cap :: "'p \<Rightarrow> int" and inv :: "'p \<Rightarrow> bool"
  assumes acquire_full: "inv p \<Longrightarrow> cap p \<le> used p \<Longrightarrow> acquire p = (False, p)"
    and acquire_free: "inv p \<Longrightarrow> used p < cap p \<Longrightarrow> fst (acquire p)"
    and acquire_used: "inv p \<Longrightarrow> acquire p = (True, p') \<Longrightarrow> used p' = used p + 1"
    and acquire_inv: "inv p \<Longrightarrow> acquire p = (True, p') \<Longrightarrow> inv p'"
    and acquire_cap: "inv p \<Longrightarrow> acquire p = (True, p') \<Longrightarrow> cap p' = cap p"
    and release_used: "inv p \<Longrightarrow> 0 < used p \<Longrightarrow> used (release p) = used p - 1"
    and release_inv: "inv p \<Longrightarrow> 0 < used p \<Longrightarrow> inv (release p)"
    and release_cap: "cap (release p) = cap p"
    and used_nonneg: "inv p \<Longrightarrow> 0 \<le> used p"
begin

lemma acquire_iff: "inv p \<Longrightarrow> fst (acquire p) \<longleftrightarrow> used p < cap p"
  using acquire_full [of p] acquire_free [of p] by fastforce

lemma acquire_bound: "inv p \<Longrightarrow> acquire p = (True, p') \<Longrightarrow> used p' \<le> cap p'"
  using acquire_iff [of p] acquire_used [of p p'] acquire_cap [of p p'] by auto

lemma acquire_False: "inv p \<Longrightarrow> acquire p = (False, p') \<Longrightarrow> p' = p"
  using acquire_iff [of p] acquire_full [of p] by fastforce

text \<open>
  A handler that releases on every path what it acquired leaves the count as it found it.
\<close>

lemma balanced:
  assumes "inv p" and "acquire p = (True, p1)"
  shows "used (release p1) = used p \<and> inv (release p1) \<and> cap (release p1) = cap p"
proof -
  from assms have "used p1 = used p + 1" "inv p1" "cap p1 = cap p"
    by (auto dest: acquire_used acquire_inv acquire_cap)
  moreover from this used_nonneg [OF assms(1)] have "0 < used p1" by linarith
  ultimately show ?thesis by (simp add: release_used release_inv release_cap)
qed

end

text \<open>The specification of a limiter shared by many goroutines: a set of holders that never outgrows its capacity.\<close>

inductive slot_step :: "int \<Rightarrow> nat set \<Rightarrow> nat set \<Rightarrow> bool" for c :: int where
  take_slot: "i \<notin> H \<Longrightarrow> int (card H) < c \<Longrightarrow> slot_step c H (insert i H)"
| give_slot: "i \<in> H \<Longrightarrow> slot_step c H (H - {i})"

section \<open>Counting goroutines at a program point\<close>

definition at :: "(nat \<Rightarrow> 'pc) \<Rightarrow> 'pc set \<Rightarrow> nat set" where
  "at pcs P = {i. pcs i \<in> P}"

lemma at_iff [simp]: "i \<in> at pcs P \<longleftrightarrow> pcs i \<in> P"
  by (simp add: at_def)

lemma at_enter: "pc \<in> P \<Longrightarrow> at (pcs(i := pc)) P = insert i (at pcs P)"
  by (auto simp: at_def)

lemma at_leave: "pc \<notin> P \<Longrightarrow> at (pcs(i := pc)) P = at pcs P - {i}"
  by (auto simp: at_def)

lemma at_stay: "pcs i \<notin> P \<Longrightarrow> pc \<notin> P \<Longrightarrow> at (pcs(i := pc)) P = at pcs P"
  by (auto simp: at_def)

lemma card_at_enter:
  "finite (at pcs P) \<Longrightarrow> pcs i \<notin> P \<Longrightarrow> pc \<in> P \<Longrightarrow> card (at (pcs(i := pc)) P) = Suc (card (at pcs P))"
  by (simp add: at_enter)

lemma card_at_leave:
  "finite (at pcs P) \<Longrightarrow> pcs i \<in> P \<Longrightarrow> pc \<notin> P \<Longrightarrow> Suc (card (at (pcs(i := pc)) P)) = card (at pcs P)"
  by (simp add: at_leave card_Suc_Diff1 del: card_Diff_insert)

lemma finite_at_upd: "finite (at pcs P) \<Longrightarrow> finite (at (pcs(i := pc)) P)"
  by (cases "pc \<in> P") (simp_all add: at_enter at_leave)

text \<open>One rule for every move of a goroutine from one program point to another.\<close>

lemma card_at_move:
  assumes "finite (at pcs P)"
  shows "int (card (at (pcs(i := pc)) P)) = int (card (at pcs P)) + of_bool (pc \<in> P) - of_bool (pcs i \<in> P)"
proof (cases "pcs i \<in> P")
  case True
  then have "at (pcs(i := pc)) P = (if pc \<in> P then at pcs P else at pcs P - {i})" by (auto simp: at_def)
  moreover from True assms have "0 < card (at pcs P)" by (auto simp: card_gt_0_iff)
  ultimately show ?thesis using True assms by (simp add: card_Diff_singleton)
next
  case False
  then show ?thesis using assms by (cases "pc \<in> P") (simp_all add: card_at_enter at_stay)
qed

lemmas at_simps = at_stay card_at_enter finite_at_upd

end
