(* ===== verification/Go_Base.thy ===== *)
theory Go_Base
  imports Main "HOL-Library.Word" "HOL-Library.Sublist"
begin

text \<open>
  The prelude. It holds what the Go language and its packages \<open>strings\<close>, \<open>bytes\<close> and
  \<open>strconv\<close> give to the two programs: byte strings, \<open>int\<close> as a 64-bit value, and the
  conversions between the two. Strings are lists of bytes (\<open>char\<close>), as Go's are.
  The second half holds the generic lemmas the components share and the collections
  they are declared into.
\<close>

named_theorems go_string \<comment> \<open>rewrite rules for the byte-string functions\<close>

type_synonym env = "string \<rightharpoonup> string"

datatype ('e, 'a) result = Err 'e | Ok 'a

subsection \<open>Machine integers\<close>

definition minInt64 :: int where
  "minInt64 = - (2 ^ 63)"

definition maxInt64 :: int where
  "maxInt64 = 2 ^ 63 - 1"

definition maxUint64 :: int where
  "maxUint64 = 2 ^ 64 - 1"

definition int64_ok :: "int \<Rightarrow> bool" where
  "int64_ok n \<longleftrightarrow> minInt64 \<le> n \<and> n \<le> maxInt64"

text \<open>The value of a 64-bit signed addition: two's complement wrap-around.\<close>

definition wrap64 :: "int \<Rightarrow> int" where
  "wrap64 n = (n + 2 ^ 63) mod 2 ^ 64 - 2 ^ 63"

subsection \<open>Package strings\<close>

fun IndexByte :: "string \<Rightarrow> char \<Rightarrow> nat option" where
  "IndexByte [] c = None"
| "IndexByte (x # xs) c = (if x = c then Some 0 else map_option Suc (IndexByte xs c))"

fun LastIndexByte :: "string \<Rightarrow> char \<Rightarrow> nat option" where
  "LastIndexByte [] c = None"
| "LastIndexByte (x # xs) c =
     (case LastIndexByte xs c of
        Some i \<Rightarrow> Some (Suc i)
      | None \<Rightarrow> if x = c then Some 0 else None)"

definition HasPrefix :: "string \<Rightarrow> string \<Rightarrow> bool" where
  "HasPrefix s p \<longleftrightarrow> take (length p) s = p"

definition TrimPrefix :: "string \<Rightarrow> string \<Rightarrow> string" where
  "TrimPrefix s p = (if HasPrefix s p then drop (length p) s else s)"

text \<open>\<open>strings.Cut\<close> with a one-byte separator: the text before and after its first occurrence.\<close>

definition Cut :: "string \<Rightarrow> char \<Rightarrow> (string \<times> string) option" where
  "Cut s c = (case IndexByte s c of
                None \<Rightarrow> None
              | Some i \<Rightarrow> Some (take i s, drop (Suc i) s))"

text \<open>\<open>strings.TrimRight(s, "\r\n")\<close>.\<close>

definition TrimRightCRLF :: "string \<Rightarrow> string" where
  "TrimRightCRLF s = rev (dropWhile (\<lambda>c. c = CHR 0x0D \<or> c = CHR 0x0A) (rev s))"

text \<open>
  \<open>strings.TrimSpace\<close> removes leading and trailing runes for which \<open>unicode.IsSpace\<close> holds.
  The runes are given by their UTF-8 encodings; UTF-8 is self-synchronising, so the first
  (last) rune of a string is one of them exactly when its encoding is a prefix (suffix).
\<close>

definition space_runes :: "string list" where
  "space_runes =
     [[CHR 0x09], [CHR 0x0A], [CHR 0x0B], [CHR 0x0C], [CHR 0x0D], [CHR 0x20],
      [CHR 0xC2, CHR 0x85], [CHR 0xC2, CHR 0xA0], [CHR 0xE1, CHR 0x9A, CHR 0x80],
      [CHR 0xE2, CHR 0x80, CHR 0x80], [CHR 0xE2, CHR 0x80, CHR 0x81],
      [CHR 0xE2, CHR 0x80, CHR 0x82], [CHR 0xE2, CHR 0x80, CHR 0x83],
      [CHR 0xE2, CHR 0x80, CHR 0x84], [CHR 0xE2, CHR 0x80, CHR 0x85],
      [CHR 0xE2, CHR 0x80, CHR 0x86], [CHR 0xE2, CHR 0x80, CHR 0x87],
      [CHR 0xE2, CHR 0x80, CHR 0x88], [CHR 0xE2, CHR 0x80, CHR 0x89],
      [CHR 0xE2, CHR 0x80, CHR 0x8A], [CHR 0xE2, CHR 0x80, CHR 0xA8],
      [CHR 0xE2, CHR 0x80, CHR 0xA9], [CHR 0xE2, CHR 0x80, CHR 0xAF],
      [CHR 0xE2, CHR 0x81, CHR 0x9F], [CHR 0xE3, CHR 0x80, CHR 0x80]]"

definition strip_one :: "string list \<Rightarrow> string \<Rightarrow> string option" where
  "strip_one ps s = map_option (\<lambda>p. drop (length p) s) (find (\<lambda>p. p \<noteq> [] \<and> HasPrefix s p) ps)"

lemma strip_one_shorter:
  assumes "strip_one ps s = Some t"
  shows "length t < length s"
proof -
  from assms obtain p where p: "p \<noteq> []" "HasPrefix s p" and t: "t = drop (length p) s"
    by (auto simp: strip_one_def find_Some_iff)
  from p have "s \<noteq> []" by (auto simp: HasPrefix_def)
  with p t show ?thesis by simp
qed

function strip_all :: "string list \<Rightarrow> string \<Rightarrow> string" where
  "strip_all ps s = (case strip_one ps s of None \<Rightarrow> s | Some t \<Rightarrow> strip_all ps t)"
  by pat_completeness auto
termination
  by (relation "measure (\<lambda>(ps, s). length s)") (auto simp: strip_one_shorter)

declare strip_all.simps [simp del]

definition TrimSpace :: "string \<Rightarrow> string" where
  "TrimSpace s = rev (strip_all (map rev space_runes) (rev (strip_all space_runes s)))"

subsection \<open>Package strconv\<close>

definition is_digit :: "char \<Rightarrow> bool" where
  "is_digit c \<longleftrightarrow> 48 \<le> (of_char c :: nat) \<and> (of_char c :: nat) \<le> 57"

definition digit_val :: "char \<Rightarrow> nat" where
  "digit_val c = of_char c - 48"

definition digit_char :: "nat \<Rightarrow> char" where
  "digit_char d = char_of (48 + d)"

fun decimal :: "nat \<Rightarrow> string" where
  "decimal n = (if 10 \<le> n then decimal (n div 10) else []) @ [digit_char (n mod 10)]"

declare decimal.simps [simp del]

definition Itoa :: "int \<Rightarrow> string" where
  "Itoa n = (if n < 0 then CHR ''-'' # decimal (nat (- n)) else decimal (nat n))"

datatype NumError = ErrSyntax | ErrRange

text \<open>
  \<open>strconv.ParseUint\<close> in base ten reads left to right and stops at the first byte that is
  not a digit or that takes the value past 64 bits.
\<close>

fun ParseUint_loop :: "int \<Rightarrow> string \<Rightarrow> (NumError, int) result" where
  "ParseUint_loop n [] = Ok n"
| "ParseUint_loop n (c # cs) =
     (if \<not> is_digit c then Err ErrSyntax
      else if maxUint64 < n * 10 + int (digit_val c) then Err ErrRange
      else ParseUint_loop (n * 10 + int (digit_val c)) cs)"

definition ParseUint :: "string \<Rightarrow> (NumError, int) result" where
  "ParseUint s = (if s = [] then Err ErrSyntax else ParseUint_loop 0 s)"

definition split_sign :: "string \<Rightarrow> bool \<times> string" where
  "split_sign s = (case s of
                     [] \<Rightarrow> (False, [])
                   | c # cs \<Rightarrow> if c = CHR ''-'' then (True, cs)
                               else if c = CHR ''+'' then (False, cs) else (False, s))"

text \<open>
  \<open>strconv.Atoi\<close> on a 64-bit platform. Like Go's it returns a value beside the error: zero
  after a syntax error, the nearest 64-bit value after a range error.
\<close>

definition Atoi :: "string \<Rightarrow> int \<times> NumError option" where
  "Atoi s =
     (let (neg, t) = split_sign s in
      case ParseUint t of
        Err ErrSyntax \<Rightarrow> (0, Some ErrSyntax)
      | Err ErrRange \<Rightarrow> (if neg then minInt64 else maxInt64, Some ErrRange)
      | Ok un \<Rightarrow>
          if \<not> neg \<and> 2 ^ 63 \<le> un then (maxInt64, Some ErrRange)
          else if neg \<and> 2 ^ 63 < un then (minInt64, Some ErrRange)
          else (if neg then - un else un, None))"

text \<open>The callers that test the error see an optional value.\<close>

definition Atoi_opt :: "string \<Rightarrow> int option" where
  "Atoi_opt s = (case Atoi s of (n, None) \<Rightarrow> Some n | (_, Some _) \<Rightarrow> None)"

definition ParseBool :: "string \<Rightarrow> bool option" where
  "ParseBool s =
     (if s \<in> set [''1'', ''t'', ''T'', ''true'', ''TRUE'', ''True''] then Some True
      else if s \<in> set [''0'', ''f'', ''F'', ''false'', ''FALSE'', ''False''] then Some False
      else None)"

section \<open>Lemmas the components share\<close>

subsection \<open>Searching a byte string\<close>

lemma IndexByte_None_iff: "IndexByte s c = None \<longleftrightarrow> c \<notin> set s"
  by (induction s) auto

lemma IndexByte_notin [simp, go_string]: "c \<notin> set s \<Longrightarrow> IndexByte s c = None"
  by (simp add: IndexByte_None_iff)

lemma IndexByte_append [go_string]:
  "c \<notin> set xs \<Longrightarrow> IndexByte (xs @ c # ys) c = Some (length xs)"
  by (induction xs) auto

lemma IndexByte_SomeD:
  "IndexByte s c = Some i \<Longrightarrow> \<exists>xs ys. s = xs @ c # ys \<and> c \<notin> set xs \<and> length xs = i"
proof (induction s arbitrary: i)
  case Nil
  then show ?case by simp
next
  case (Cons x s)
  show ?case
  proof (cases "x = c")
    case True
    with Cons.prems show ?thesis by (intro exI [of _ "[]"] exI [of _ s]) auto
  next
    case False
    with Cons.prems obtain j where "IndexByte s c = Some j" "i = Suc j" by auto
    moreover from Cons.IH [OF this(1)] obtain xs ys
      where "s = xs @ c # ys" "c \<notin> set xs" "length xs = j" by blast
    ultimately show ?thesis using False
      by (intro exI [of _ "x # xs"] exI [of _ ys]) auto
  qed
qed

lemma LastIndexByte_None_iff: "LastIndexByte s c = None \<longleftrightarrow> c \<notin> set s"
  by (induction s) (auto split: option.splits)

lemma LastIndexByte_notin [simp, go_string]: "c \<notin> set s \<Longrightarrow> LastIndexByte s c = None"
  by (simp add: LastIndexByte_None_iff)

lemma LastIndexByte_append [go_string]:
  "c \<notin> set ys \<Longrightarrow> LastIndexByte (xs @ c # ys) c = Some (length xs)"
  by (induction xs) auto

lemma LastIndexByte_SomeD:
  assumes "LastIndexByte s c = Some i"
  shows "\<exists>xs ys. s = xs @ c # ys \<and> c \<notin> set ys \<and> length xs = i"
proof -
  from assms have "c \<in> set s" by (metis LastIndexByte_None_iff option.distinct(1))
  then obtain xs ys where "s = xs @ c # ys" "c \<notin> set ys"
    by (meson split_list_last)
  with assms show ?thesis by (auto simp: LastIndexByte_append)
qed

lemma split_at_last:
  fixes xs :: string
  assumes "xs @ c # ys = xs' @ c # ys'" and "c \<notin> set ys" and "c \<notin> set ys'"
  shows "xs = xs' \<and> ys = ys'"
proof -
  from assms(1) have "LastIndexByte (xs @ c # ys) c = LastIndexByte (xs' @ c # ys') c" by simp
  then have "length xs = length xs'"
    by (simp add: LastIndexByte_append assms(2,3))
  with assms(1) show ?thesis by simp
qed

lemma HasPrefix_append [simp, go_string]: "HasPrefix (p @ s) p"
  by (simp add: HasPrefix_def)

lemma HasPrefix_Nil [simp, go_string]: "HasPrefix s []"
  by (simp add: HasPrefix_def)

lemma HasPrefix_iff: "HasPrefix s p \<longleftrightarrow> (\<exists>t. s = p @ t)"
  by (metis HasPrefix_append HasPrefix_def append_take_drop_id)

lemma TrimPrefix_append [simp, go_string]: "TrimPrefix (p @ s) p = s"
  by (simp add: TrimPrefix_def)

lemma Cut_append [go_string]: "c \<notin> set k \<Longrightarrow> Cut (k @ c # v) c = Some (k, v)"
  by (simp add: Cut_def IndexByte_append)

lemma Cut_SomeD: "Cut s c = Some (k, v) \<Longrightarrow> s = k @ c # v \<and> c \<notin> set k"
  by (auto simp: Cut_def split: option.splits dest!: IndexByte_SomeD)

subsection \<open>Decimal numbers\<close>

lemma digit_char_val:
  assumes "d < 10"
  shows "is_digit (digit_char d)" and "digit_val (digit_char d) = d"
  using assms by (simp_all add: is_digit_def digit_val_def digit_char_def)

lemma decimal_digits: "c \<in> set (decimal n) \<Longrightarrow> is_digit c"
proof (induction n rule: decimal.induct)
  case (1 n)
  then show ?case
    by (subst (asm) (2) decimal.simps) (auto simp: digit_char_val split: if_splits)
qed

lemma decimal_nonempty [simp]: "decimal n \<noteq> []"
  by (subst decimal.simps) simp

lemma ParseUint_loop_snoc:
  "ParseUint_loop a (xs @ [c]) =
     (case ParseUint_loop a xs of Err e \<Rightarrow> Err e | Ok n \<Rightarrow> ParseUint_loop n [c])"
  by (induction xs arbitrary: a) auto

lemma ParseUint_loop_decimal: "int n \<le> maxUint64 \<Longrightarrow> ParseUint_loop 0 (decimal n) = Ok (int n)"
proof (induction n rule: decimal.induct)
  case (1 n)
  have d: "n mod 10 < 10" by simp
  show ?case
  proof (cases "10 \<le> n")
    case True
    with "1" have "ParseUint_loop 0 (decimal (n div 10)) = Ok (int (n div 10))" by simp
    moreover have "int (n div 10) * 10 + int (n mod 10) = int n" by presburger
    ultimately show ?thesis using True "1.prems"
      by (subst decimal.simps) (simp add: ParseUint_loop_snoc digit_char_val [OF d])
  next
    case False
    with "1.prems" show ?thesis
      by (subst decimal.simps) (simp add: digit_char_val)
  qed
qed

lemma ParseUint_decimal: "int n \<le> maxUint64 \<Longrightarrow> ParseUint (decimal n) = Ok (int n)"
  by (simp add: ParseUint_def ParseUint_loop_decimal)

lemma ParseUint_loop_nonneg: "ParseUint_loop a s = Ok n \<Longrightarrow> 0 \<le> a \<Longrightarrow> 0 \<le> n"
  by (induction s arbitrary: a) (auto split: if_splits)

lemma ParseUint_nonneg: "ParseUint s = Ok n \<Longrightarrow> 0 \<le> n"
  by (auto simp: ParseUint_def dest: ParseUint_loop_nonneg split: if_splits)

text \<open>The value a digit string denotes, without a bound; it shows that printing is injective.\<close>

definition decimal_value :: "string \<Rightarrow> nat" where
  "decimal_value s = foldl (\<lambda>a c. a * 10 + digit_val c) 0 s"

lemma decimal_value_decimal [simp]: "decimal_value (decimal n) = n"
proof (induction n rule: decimal.induct)
  case (1 n)
  have d: "n mod 10 < 10" by simp
  from "1" show ?case
    by (subst decimal.simps) (auto simp: decimal_value_def digit_char_val [OF d])
qed

lemma decimal_inject [simp]: "decimal m = decimal n \<longleftrightarrow> m = n"
  by (metis decimal_value_decimal)

lemma decimal_no_sign:
  assumes "c \<in> set (decimal n)"
  shows "c \<noteq> CHR ''-''" and "c \<noteq> CHR ''+''" and "c \<noteq> CHR '':''"
    and "c \<noteq> CHR ''['' " and "c \<noteq> CHR '']''" and "c \<noteq> CHR ''.''"
  using decimal_digits [OF assms] by (auto simp: is_digit_def)

lemma split_sign_decimal: "split_sign (decimal n) = (False, decimal n)"
proof (cases "decimal n")
  case Nil
  then show ?thesis by simp
next
  case (Cons c cs)
  then have "c \<in> set (decimal n)" by simp
  from decimal_no_sign(1,2) [OF this] Cons show ?thesis by (simp add: split_sign_def)
qed

lemma split_sign_minus: "split_sign (CHR ''-'' # s) = (True, s)"
  by (simp add: split_sign_def)

lemma Atoi_Itoa:
  assumes "int64_ok n"
  shows "Atoi (Itoa n) = (n, None)"
  using assms
  by (auto simp: Atoi_def Itoa_def split_sign_decimal ParseUint_decimal int64_ok_def minInt64_def
      maxInt64_def maxUint64_def split_sign_minus)

lemma Atoi_opt_Itoa: "int64_ok n \<Longrightarrow> Atoi_opt (Itoa n) = Some n"
  by (simp add: Atoi_opt_def Atoi_Itoa)

lemma Atoi_int64: "int64_ok (fst (Atoi s))"
  by (auto simp: Atoi_def int64_ok_def minInt64_def maxInt64_def Let_def
      split: prod.split result.split NumError.split dest!: ParseUint_nonneg)

lemma Atoi_opt_int64: "Atoi_opt s = Some n \<Longrightarrow> int64_ok n"
  using Atoi_int64 [of s] by (auto simp: Atoi_opt_def split: prod.splits option.splits)

lemma decimal_not_minus: "decimal m \<noteq> CHR ''-'' # s"
proof
  assume "decimal m = CHR ''-'' # s"
  then have "CHR ''-'' \<in> set (decimal m)" by simp
  from decimal_no_sign(1) [OF this] show False by simp
qed

lemma Itoa_inject [simp]: "Itoa m = Itoa n \<longleftrightarrow> m = n"
  by (auto simp: Itoa_def decimal_not_minus decimal_not_minus [symmetric] split: if_splits)

lemma Itoa_chars: "c \<in> set (Itoa n) \<Longrightarrow> c = CHR ''-'' \<or> is_digit c"
  by (auto simp: Itoa_def dest: decimal_digits split: if_splits)

lemma Itoa_no_colon [simp]: "CHR '':'' \<notin> set (Itoa n)" "CHR ''['' \<notin> set (Itoa n)"
  "CHR '']'' \<notin> set (Itoa n)"
  using Itoa_chars by (fastforce simp: is_digit_def)+

lemma Itoa_nonempty [simp]: "Itoa n \<noteq> []"
  by (simp add: Itoa_def)

subsection \<open>Wrap-around\<close>

lemma wrap64_id: "int64_ok n \<Longrightarrow> wrap64 n = n"
  by (simp add: wrap64_def int64_ok_def minInt64_def maxInt64_def)

lemma wrap64_ok [simp]: "int64_ok (wrap64 n)"
proof -
  have "0 \<le> (n + 2 ^ 63) mod 2 ^ 64" "(n + 2 ^ 63) mod 2 ^ 64 < (2 ^ 64 :: int)" by simp_all
  then show ?thesis unfolding wrap64_def int64_ok_def minInt64_def maxInt64_def
    by (simp add: algebra_simps)
qed

end
