(* ===== verification/Go_Time.thy ===== *)
theory Go_Time
  imports Go_Base
begin

text \<open>
  What the programs use of Go's package \<open>time\<close>: durations (64-bit counts of nanoseconds)
  and \<open>time.ParseDuration\<close>, its overflow tests and its floating-point treatment of
  fractions included. The lemmas bound the parsed value and show that a printed
  whole number of a unit is read back.
\<close>

type_synonym Duration = int

definition Millisecond :: Duration where "Millisecond = 1000000"
definition Second :: Duration where "Second = 1000000000"
definition Minute :: Duration where "Minute = 60 * Second"
definition Hour :: Duration where "Hour = 60 * Minute"

lemmas duration_units = Millisecond_def Second_def Minute_def Hour_def

subsection \<open>Rounding to a 64-bit float\<close>

text \<open>
  A positive float is a fraction \<open>(p, q)\<close>. \<open>f64\<close> rounds to 53 significant bits, ties to
  even. The exponent is not bounded: the parser's values leave the range of normal floats
  only when the fraction they stand for is below one nanosecond and is truncated to zero
  either way.
\<close>

function bits :: "int \<Rightarrow> nat" where
  "bits n = (if n \<le> 0 then 0 else Suc (bits (n div 2)))"
  by pat_completeness auto
termination
  by (relation "measure nat") auto

declare bits.simps [simp del]

definition round_even :: "int \<Rightarrow> int \<Rightarrow> int" where
  "round_even p q =
     (let k = p div q; r = p mod q in if 2 * r < q \<or> (2 * r = q \<and> even k) then k else k + 1)"

definition scale2 :: "int \<times> int \<Rightarrow> int \<Rightarrow> int \<times> int" where
  "scale2 x sh = (if 0 \<le> sh then (fst x * 2 ^ nat sh, snd x) else (fst x, snd x * 2 ^ nat (- sh)))"

definition f64 :: "int \<times> int \<Rightarrow> int \<times> int" where
  "f64 x =
     (if fst x = 0 then (0, 1)
      else
        let sh0 = 53 - (int (bits (fst x)) - int (bits (snd x)));
            y0 = scale2 x sh0;
            sh = (if 2 ^ 53 * snd y0 \<le> fst y0 then sh0 - 1 else sh0);
            y = scale2 x sh
        in scale2 (round_even (fst y) (snd y), 1) (- sh))"

text \<open>\<open>uint64(float64(f) * (float64(unit) / scale))\<close>.\<close>

definition frac_nanos :: "int \<Rightarrow> int \<Rightarrow> int \<times> int \<Rightarrow> int" where
  "frac_nanos f unit sc =
     (let x = f64 (f, 1);
          y = f64 (unit * snd sc, fst sc);
          z = f64 (fst x * fst y, snd x * snd y)
      in fst z div snd z)"

subsection \<open>ParseDuration\<close>

definition unitMap :: "string \<rightharpoonup> int" where
  "unitMap = map_of
     [(''ns'', 1), (''us'', 1000), (CHR 0xC2 # CHR 0xB5 # ''s'', 1000),
      (CHR 0xCE # CHR 0xBC # ''s'', 1000), (''ms'', Millisecond), (''s'', Second),
      (''m'', Minute), (''h'', Hour)]"

fun leadingInt :: "int \<Rightarrow> string \<Rightarrow> (int \<times> string) option" where
  "leadingInt x [] = Some (x, [])"
| "leadingInt x (c # cs) =
     (if \<not> is_digit c then Some (x, c # cs)
      else if 2 ^ 63 div 10 < x then None
      else if 2 ^ 63 < x * 10 + int (digit_val c) then None
      else leadingInt (x * 10 + int (digit_val c)) cs)"

fun leadingFraction ::
    "int \<Rightarrow> int \<times> int \<Rightarrow> bool \<Rightarrow> string \<Rightarrow> int \<times> (int \<times> int) \<times> string" where
  "leadingFraction x sc ov [] = (x, sc, [])"
| "leadingFraction x sc ov (c # cs) =
     (if \<not> is_digit c then (x, sc, c # cs)
      else if ov \<or> (2 ^ 63 - 1) div 10 < x \<or> 2 ^ 63 < x * 10 + int (digit_val c)
      then leadingFraction x sc True cs
      else leadingFraction (x * 10 + int (digit_val c)) (f64 (fst sc * 10, snd sc)) False cs)"

definition number_start :: "char \<Rightarrow> bool" where
  "number_start c \<longleftrightarrow> c = CHR ''.'' \<or> is_digit c"

text \<open>One number with its optional fraction: value, fraction, scale, the rest, and whether a digit was read.\<close>

definition duration_number :: "string \<Rightarrow> (int \<times> int \<times> (int \<times> int) \<times> string \<times> bool) option" where
  "duration_number s =
     (case leadingInt 0 s of
        None \<Rightarrow> None
      | Some (v, s1) \<Rightarrow>
          let pre = (length s1 \<noteq> length s) in
          if take 1 s1 = ''.'' then
            let (f, sc, s2) = leadingFraction 0 (1, 1) False (tl s1)
            in Some (v, f, sc, s2, pre \<or> length s2 \<noteq> length (tl s1))
          else Some (v, 0, (1, 1), s1, pre))"

lemma leadingInt_length: "leadingInt x s = Some (v, t) \<Longrightarrow> length t \<le> length s"
  by (induction x s rule: leadingInt.induct) (auto split: if_splits intro: le_SucI)

lemma leadingFraction_length: "leadingFraction x sc ov s = (f, sc', t) \<Longrightarrow> length t \<le> length s"
  by (induction x sc ov s rule: leadingFraction.induct) (auto split: if_splits intro: le_SucI)

lemma duration_number_length:
  assumes "duration_number s = Some (v, f, sc, t, d)"
  shows "length t \<le> length s"
proof -
  from assms obtain v1 s1 where s1: "leadingInt 0 s = Some (v1, s1)"
    by (cases "leadingInt 0 s") (auto simp: duration_number_def)
  from leadingInt_length [OF s1] have le: "length s1 \<le> length s" .
  show ?thesis
  proof (cases "take 1 s1 = ''.''")
    case True
    obtain f' sc' s2 where lf: "leadingFraction 0 (1, 1) False (tl s1) = (f', sc', s2)"
      by (metis prod_cases3)
    with assms s1 True have "t = s2" by (auto simp: duration_number_def Let_def)
    with leadingFraction_length [OF lf] le show ?thesis by simp
  next
    case False
    with assms s1 le show ?thesis by (auto simp: duration_number_def Let_def)
  qed
qed

function ParseDuration_loop :: "int \<Rightarrow> string \<Rightarrow> int option" where
  "ParseDuration_loop d s =
     (if s = [] then Some d
      else if \<not> number_start (hd s) then None
      else
        case duration_number s of
          None \<Rightarrow> None
        | Some (v, f, sc, t, digits) \<Rightarrow>
            if \<not> digits then None
            else
              let u = takeWhile (\<lambda>c. \<not> number_start c) t in
              if u = [] then None
              else
                case unitMap u of
                  None \<Rightarrow> None
                | Some unit \<Rightarrow>
                    if 2 ^ 63 div unit < v then None
                    else
                      let v' = (if 0 < f then v * unit + frac_nanos f unit sc else v * unit);
                          d' = (d + v') mod 2 ^ 64
                      in
                      if 0 < f \<and> 2 ^ 63 < v' then None
                      else if 2 ^ 63 < d' then None
                      else ParseDuration_loop d' (drop (length u) t))"
  by pat_completeness auto
termination
proof (relation "measure (\<lambda>(d, s). length s)")
  fix s :: string and x2 v y f z sc a t digits u unit v' d' and d :: int
  assume *: "duration_number s = Some x2" "(v, y) = x2" "(f, z) = y" "(sc, a) = z" "(t, digits) = a"
    "u = takeWhile (\<lambda>c. \<not> number_start c) t" "u \<noteq> []"
  then have "length t \<le> length s" by (auto dest: duration_number_length)
  moreover from * have "0 < length t" "0 < length u" by auto
  ultimately have "length t - length u < length s" by linarith
  then show "((d', drop (length u) t), d, s) \<in> measure (\<lambda>(d, s). length s)" by simp
qed auto

declare ParseDuration_loop.simps [simp del]

definition ParseDuration :: "string \<Rightarrow> Duration option" where
  "ParseDuration s =
     (let (neg, t) = split_sign s in
      if t = ''0'' then Some 0
      else if t = [] then None
      else
        case ParseDuration_loop 0 t of
          None \<Rightarrow> None
        | Some d \<Rightarrow> if neg then Some (- d) else if 2 ^ 63 - 1 < d then None else Some d)"

section \<open>Lemmas\<close>

lemma ParseDuration_loop_step:
  assumes "ParseDuration_loop d s = Some r" and "s \<noteq> []"
  shows "\<exists>d' t. ParseDuration_loop d' t = Some r \<and> length t < length s \<and> 0 \<le> d' \<and> d' \<le> 2 ^ 63"
proof -
  from assms obtain v f sc t digits where num: "duration_number s = Some (v, f, sc, t, digits)"
    by (subst (asm) ParseDuration_loop.simps) (auto split: if_splits option.splits)
  let ?u = "takeWhile (\<lambda>c. \<not> number_start c) t"
  from assms num obtain d' where rec: "ParseDuration_loop d' (drop (length ?u) t) = Some r"
    and u: "?u \<noteq> []" and d': "0 \<le> d'" "d' \<le> 2 ^ 63"
    by (subst (asm) ParseDuration_loop.simps)
      (auto simp: Let_def not_less split: if_splits option.splits)
  from u have "0 < length ?u" "0 < length t" by auto
  with duration_number_length [OF num] have "length (drop (length ?u) t) < length s"
    unfolding length_drop by linarith
  with rec d' show ?thesis by blast
qed

lemma ParseDuration_loop_bound:
  "ParseDuration_loop d s = Some r \<Longrightarrow> 0 \<le> d \<Longrightarrow> d \<le> 2 ^ 63 \<Longrightarrow> 0 \<le> r \<and> r \<le> 2 ^ 63"
proof (induction "length s" arbitrary: d s rule: less_induct)
  case less
  show ?case
  proof (cases "s = []")
    case True
    with less.prems show ?thesis by (simp add: ParseDuration_loop.simps)
  next
    case False
    from ParseDuration_loop_step [OF less.prems(1) this] less.hyps show ?thesis by blast
  qed
qed

lemma ParseDuration_int64: "ParseDuration s = Some d \<Longrightarrow> int64_ok d"
  by (auto simp: ParseDuration_def int64_ok_def minInt64_def maxInt64_def
      split: prod.splits if_splits option.splits dest!: ParseDuration_loop_bound)

lemma leadingInt_append:
  "\<forall>c \<in> set xs. is_digit c \<Longrightarrow> leadingInt a (xs @ ys) =
     (case leadingInt a xs of None \<Rightarrow> None | Some (n, _) \<Rightarrow> leadingInt n ys)"
  by (induction xs arbitrary: a) auto

lemma leadingInt_decimal: "int n \<le> 2 ^ 63 \<Longrightarrow> leadingInt 0 (decimal n) = Some (int n, [])"
proof (induction n rule: decimal.induct)
  case (1 n)
  have d: "n mod 10 < 10" by simp
  show ?case
  proof (cases "10 \<le> n")
    case True
    with "1" have ih: "leadingInt 0 (decimal (n div 10)) = Some (int (n div 10), [])" by simp
    have eq: "int (n div 10) * 10 + int (n mod 10) = int n" by presburger
    have "int (n div 10) \<le> 2 ^ 63 div 10" using "1.prems" by simp
    with ih eq True "1.prems" show ?thesis
      by (subst decimal.simps)
        (simp add: leadingInt_append ballI decimal_digits digit_char_val [OF d])
  next
    case False
    with "1.prems" show ?thesis by (subst decimal.simps) (simp add: digit_char_val)
  qed
qed

text \<open>A printed whole number of a unit parses to that many units.\<close>

lemma ParseDuration_loop_decimal:
  assumes u: "unitMap u = Some unit" and pos: "0 < unit" and bound: "int n * unit \<le> 2 ^ 63"
    and start: "u \<noteq> []" "\<forall>c \<in> set u. \<not> number_start c"
  shows "ParseDuration_loop 0 (decimal n @ u) = Some (int n * unit)"
proof -
  have "int n * 1 \<le> int n * unit" using pos by (intro mult_left_mono) auto
  with bound have n63: "int n \<le> 2 ^ 63" by linarith
  from start obtain c us where cu: "u = c # us" "\<not> is_digit c" "c \<noteq> CHR ''.''"
    by (cases u) (auto simp: number_start_def)
  have li: "leadingInt 0 (decimal n @ u) = Some (int n, u)"
    using cu leadingInt_decimal [OF n63] by (simp add: leadingInt_append ballI decimal_digits)
  have num: "duration_number (decimal n @ u) = Some (int n, 0, (1, 1), u, True)"
    using li cu by (simp add: duration_number_def)
  have hd: "number_start (hd (decimal n @ u))"
    using decimal_digits [of "hd (decimal n)" n] by (simp add: number_start_def)
  have tw: "takeWhile (\<lambda>c. \<not> number_start c) u = u" using start by (simp add: takeWhile_eq_all_conv)
  from bound have "int n * unit div unit \<le> 2 ^ 63 div unit" by (intro zdiv_mono1 pos) simp
  with pos have div: "\<not> 2 ^ 63 div unit < int n" by simp
  have "0 \<le> int n * unit" using pos by simp
  with bound show ?thesis
    using num hd u div start
    by (subst ParseDuration_loop.simps) (simp add: tw Let_def ParseDuration_loop.simps)
qed

lemma decimal_append_not_zero: "u \<noteq> [] \<Longrightarrow> decimal n @ u \<noteq> ''0''"
  by (cases "decimal n") (auto simp: append_eq_Cons_conv)

lemma ParseDuration_Itoa:
  assumes u: "unitMap u = Some unit" and pos: "0 < unit" and bound: "int64_ok (d * unit)"
    and start: "u \<noteq> []" "\<forall>c \<in> set u. \<not> number_start c"
  shows "ParseDuration (Itoa d @ u) = Some (d * unit)"
proof (cases "d < 0")
  case True
  then have abs: "int (nat (- d)) * unit = - (d * unit)" by simp
  moreover from bound have "- (d * unit) \<le> 2 ^ 63" by (simp add: int64_ok_def minInt64_def)
  ultimately have "ParseDuration_loop 0 (decimal (nat (- d)) @ u) = Some (- (d * unit))"
    using ParseDuration_loop_decimal [OF u pos _ start, of "nat (- d)"] by simp
  with True start show ?thesis
    by (simp add: ParseDuration_def Itoa_def split_sign_def decimal_append_not_zero)
next
  case False
  then have abs: "int (nat d) * unit = d * unit" by simp
  have le: "d * unit \<le> 2 ^ 63 - 1" using bound by (simp add: int64_ok_def maxInt64_def)
  with abs have "ParseDuration_loop 0 (decimal (nat d) @ u) = Some (d * unit)"
    using ParseDuration_loop_decimal [OF u pos _ start, of "nat d"] by simp
  moreover have "split_sign (decimal (nat d) @ u) = (False, decimal (nat d) @ u)"
    using split_sign_decimal [of "nat d"]
    by (cases "decimal (nat d)") (auto simp: split_sign_def split: if_splits)
  ultimately show ?thesis using False start le
    by (simp add: ParseDuration_def Itoa_def decimal_append_not_zero)
qed

end
