(* ===== verification/Env_Reader.thy ===== *)
theory Env_Reader
  imports Go_Time
begin

text \<open>
  The contract of the environment readers. Both programs have their own copies of
  \<open>getEnv\<close>, \<open>getDurationEnv\<close>, \<open>getIntEnv\<close> and (the SSH server) \<open>getBoolEnv\<close>; each copy is a
  reader with its own parser, and each is shown to satisfy the contract below. The
  contract's lemmas are what the configuration loaders rely on.
\<close>

definition Getenv :: "env \<Rightarrow> string \<Rightarrow> string" where
  "Getenv env key = (case env key of None \<Rightarrow> [] | Some v \<Rightarrow> v)"

locale typed_env =
  fixes get :: "env \<Rightarrow> string \<Rightarrow> 'a \<Rightarrow> 'a"
    and parse :: "string \<Rightarrow> 'a option"
  assumes get_unset: "Getenv env key = [] \<Longrightarrow> get env key d = d"
    and get_malformed: "Getenv env key \<noteq> [] \<Longrightarrow> parse (Getenv env key) = None \<Longrightarrow> get env key d = d"
    and get_parsed: "Getenv env key \<noteq> [] \<Longrightarrow> parse (Getenv env key) = Some x \<Longrightarrow> get env key d = x"
begin

text \<open>The value read is the default or something the parser produced.\<close>

lemma get_cases:
  obtains (default) "get env key d = d"
    | (parsed) v where "env key = Some v" "v \<noteq> []" "parse v = Some (get env key d)"
proof (cases "Getenv env key = [] \<or> parse (Getenv env key) = None")
  case True
  with default get_unset get_malformed show thesis by blast
next
  case False
  then obtain x where x: "parse (Getenv env key) = Some x" by auto
  with False get_parsed have "get env key d = x" by blast
  moreover from False obtain v where "env key = Some v" "v \<noteq> []"
    by (auto simp: Getenv_def split: option.splits)
  ultimately show thesis using x parsed by (simp add: Getenv_def)
qed

lemma get_range:
  assumes "P d" and "\<And>v x. parse v = Some x \<Longrightarrow> P x"
  shows "P (get env key d)"
  by (cases rule: get_cases [of env key d]) (use assms in auto)

lemma get_depends:
  assumes "env key = env' key"
  shows "get env key d = get env' key d"
proof -
  from assms have "Getenv env key = Getenv env' key" by (simp add: Getenv_def)
  then show ?thesis by (metis get_unset get_malformed get_parsed option.exhaust)
qed

lemma get_Some: "env key = Some v \<Longrightarrow> v \<noteq> [] \<Longrightarrow> parse v = Some x \<Longrightarrow> get env key d = x"
  by (rule get_parsed) (simp_all add: Getenv_def)

lemma get_None: "env key = None \<Longrightarrow> get env key d = d"
  by (rule get_unset) (simp add: Getenv_def)

text \<open>Two readers over the same parser are the same function.\<close>

lemma get_unique:
  assumes "typed_env get' parse"
  shows "get' = get"
proof (intro ext)
  fix env key d
  from assms show "get' env key d = get env key d"
    by (metis typed_env.get_unset typed_env.get_malformed typed_env.get_parsed
        get_unset get_malformed get_parsed option.exhaust)
qed

end

end
