(* ===== verification/Go_Net.thy ===== *)
theory Go_Net
  imports Go_Base
begin

text \<open>
  What the programs use of Go's package \<open>net\<close>: splitting and joining \<open>host:port\<close>
  addresses, parsing IP addresses (the parser of \<open>net/netip\<close>, which \<open>net.ParseIP\<close> calls)
  and the loopback test. The lemmas are the round trip of an address, the injectivity
  of joining, and which dotted addresses are loopback.
\<close>

subsection \<open>host:port\<close>

datatype AddrError =
    MissingPort | TooManyColons | MissingBracket | UnexpectedOpen | UnexpectedClose

definition JoinHostPort :: "string \<Rightarrow> string \<Rightarrow> string" where
  "JoinHostPort host port =
     (if IndexByte host CHR '':'' \<noteq> None
      then CHR ''['' # host @ CHR '']'' # CHR '':'' # port
      else host @ CHR '':'' # port)"

definition SplitHostPort :: "string \<Rightarrow> (AddrError, string \<times> string) result" where
  "SplitHostPort hostport =
     (case LastIndexByte hostport CHR '':'' of
        None \<Rightarrow> Err MissingPort
      | Some i \<Rightarrow>
          let finish = (\<lambda>host j k.
                if IndexByte (drop j hostport) CHR ''['' \<noteq> None then Err UnexpectedOpen
                else if IndexByte (drop k hostport) CHR '']'' \<noteq> None then Err UnexpectedClose
                else Ok (host, drop (Suc i) hostport))
          in
          if take 1 hostport = ''['' then
            (case IndexByte hostport CHR '']'' of
               None \<Rightarrow> Err MissingBracket
             | Some e \<Rightarrow>
                 if Suc e = length hostport then Err MissingPort
                 else if Suc e = i then finish (take (e - 1) (drop 1 hostport)) 1 (Suc e)
                 else if hostport ! Suc e = CHR '':'' then Err TooManyColons
                 else Err MissingPort)
          else
            (let host = take i hostport in
             if IndexByte host CHR '':'' \<noteq> None then Err TooManyColons
             else finish host 0 0))"

subsection \<open>IP addresses\<close>

text \<open>
  An IP address is its sixteen bytes; an IPv4 address is held in its IPv4-mapped form,
  as \<open>net.IP\<close> holds what \<open>ParseIP\<close> returns.
\<close>

type_synonym ip = "8 word list"

text \<open>
  The four fields of a dotted IPv4 address. \<open>prev\<close> is the byte before the current one
  (\<open>None\<close> at the start), \<open>val\<close> and \<open>digLen\<close> the octet being read, \<open>fields\<close> those complete.
\<close>

fun parseIPv4Fields ::
    "char option \<Rightarrow> nat \<Rightarrow> nat \<Rightarrow> 8 word list \<Rightarrow> string \<Rightarrow> 8 word list option" where
  "parseIPv4Fields prev val digLen fields [] =
     (if length fields < 3 then None else Some (fields @ [of_nat val]))"
| "parseIPv4Fields prev val digLen fields (c # cs) =
     (if is_digit c then
        if digLen = 1 \<and> val = 0 then None
        else if 255 < val * 10 + digit_val c then None
        else parseIPv4Fields (Some c) (val * 10 + digit_val c) (Suc digLen) fields cs
      else if c = CHR ''.'' then
        if prev = None \<or> cs = [] \<or> prev = Some CHR ''.'' then None
        else if length fields = 3 then None
        else parseIPv4Fields (Some c) 0 0 (fields @ [of_nat val]) cs
      else None)"

definition v4_in_v6 :: "8 word list \<Rightarrow> ip" where
  "v4_in_v6 fields = replicate 10 0 @ [255, 255] @ fields"

definition parseIPv4 :: "string \<Rightarrow> ip option" where
  "parseIPv4 s = map_option v4_in_v6 (parseIPv4Fields None 0 0 [] s)"

definition hex_val :: "char \<Rightarrow> nat option" where
  "hex_val c =
     (let n = of_char c :: nat in
      if 48 \<le> n \<and> n \<le> 57 then Some (n - 48)
      else if 97 \<le> n \<and> n \<le> 102 then Some (n - 97 + 10)
      else if 65 \<le> n \<and> n \<le> 70 then Some (n - 65 + 10)
      else None)"

text \<open>
  One group of hexadecimal digits: at most four of them, at least one. Four digits never
  exceed sixteen bits, so the parser's second overflow test cannot fail before its first.
\<close>

fun hex_group :: "nat \<Rightarrow> nat \<Rightarrow> string \<Rightarrow> (nat \<times> string) option" where
  "hex_group off acc [] = (if off = 0 then None else Some (acc, []))"
| "hex_group off acc (c # cs) =
     (case hex_val c of
        None \<Rightarrow> if off = 0 then None else Some (acc, c # cs)
      | Some d \<Rightarrow> if 3 < off then None else hex_group (Suc off) (acc * 16 + d) cs)"

lemma hex_group_length:
  "hex_group off acc s = Some (v, t) \<Longrightarrow> length t \<le> length s \<and> (off = 0 \<longrightarrow> length t < length s)"
proof (induction off acc s rule: hex_group.induct)
  case (2 off acc c cs)
  then show ?case by (fastforce split: option.splits if_splits)
qed (auto split: if_splits)

text \<open>
  The loop over colon-separated groups. \<open>ip\<close> holds the bytes read so far (the source's
  \<open>ip[:i]\<close>), \<open>ell\<close> the position of the ellipsis; the result is the final \<open>ip\<close> and \<open>ell\<close>
  when the whole string has been used.
\<close>

function parseIPv6_loop ::
    "8 word list \<Rightarrow> nat option \<Rightarrow> string \<Rightarrow> (8 word list \<times> nat option) option" where
  "parseIPv6_loop ip ell s =
     (if 16 \<le> length ip then (if s = [] then Some (ip, ell) else None)
      else
        case hex_group 0 0 s of
          None \<Rightarrow> None
        | Some (acc, t) \<Rightarrow>
            if take 1 t = ''.'' then
              if ell = None \<and> length ip \<noteq> 12 then None
              else if 16 < length ip + 4 then None
              else map_option (\<lambda>fs. (ip @ fs, ell)) (parseIPv4Fields None 0 0 [] s)
            else
              let ip' = ip @ [of_nat (acc div 256), of_nat (acc mod 256)] in
              case t of
                [] \<Rightarrow> Some (ip', ell)
              | c # t' \<Rightarrow>
                  if c \<noteq> CHR '':'' then None
                  else if t' = [] then None
                  else if take 1 t' = '':'' then
                    if ell \<noteq> None then None
                    else if tl t' = [] then Some (ip', Some (length ip'))
                    else parseIPv6_loop ip' (Some (length ip')) (tl t')
                  else parseIPv6_loop ip' ell t')"
  by pat_completeness auto
termination
  by (relation "measure (\<lambda>(ip, ell, s). length s)") (auto dest!: hex_group_length)

declare parseIPv6_loop.simps [simp del]

text \<open>Putting the zeros of the ellipsis in; it must stand for at least one group.\<close>

definition expand_ellipsis :: "8 word list \<times> nat option \<Rightarrow> ip option" where
  "expand_ellipsis r =
     (let (ip, ell) = r; n = 16 - length ip in
      if length ip < 16 then
        (case ell of
           None \<Rightarrow> None
         | Some e \<Rightarrow> Some (take e ip @ replicate n 0 @ drop e ip))
      else if ell \<noteq> None then None else Some ip)"

text \<open>
  \<open>netip.ParseAddr\<close> accepts a zone, but \<open>net.ParseIP\<close> refuses every address that has one,
  so any \<open>%\<close> makes the result \<open>None\<close>.
\<close>

definition parseIPv6 :: "string \<Rightarrow> ip option" where
  "parseIPv6 s =
     (if IndexByte s CHR ''%'' \<noteq> None then None
      else if take 2 s = ''::'' then
        (if drop 2 s = [] then Some (replicate 16 0)
         else Option.bind (parseIPv6_loop [] (Some 0) (drop 2 s)) expand_ellipsis)
      else Option.bind (parseIPv6_loop [] None s) expand_ellipsis)"

definition ParseIP :: "string \<Rightarrow> ip option" where
  "ParseIP s =
     (case find (\<lambda>c. c = CHR ''.'' \<or> c = CHR '':'' \<or> c = CHR ''%'') s of
        None \<Rightarrow> None
      | Some c \<Rightarrow> if c = CHR ''.'' then parseIPv4 s
                  else if c = CHR '':'' then parseIPv6 s
                  else None)"

definition To4 :: "ip \<Rightarrow> 8 word list option" where
  "To4 ip = (if take 12 ip = replicate 10 0 @ [255, 255] then Some (drop 12 ip) else None)"

definition IPv6loopback :: ip where
  "IPv6loopback = replicate 15 0 @ [1]"

definition IsLoopback :: "ip \<Rightarrow> bool" where
  "IsLoopback ip = (case To4 ip of
                      Some ip4 \<Rightarrow> ip4 ! 0 = 127
                    | None \<Rightarrow> ip = IPv6loopback)"

text \<open>The text form of an IPv4 address.\<close>

definition dotted :: "nat \<Rightarrow> nat \<Rightarrow> nat \<Rightarrow> nat \<Rightarrow> string" where
  "dotted a b c d = decimal a @ CHR ''.'' # decimal b @ CHR ''.'' # decimal c @ CHR ''.'' # decimal d"

section \<open>Lemmas\<close>

lemma JoinHostPort_inject:
  assumes "JoinHostPort h p = JoinHostPort h' p'"
    and "CHR '':'' \<notin> set p" and "CHR '':'' \<notin> set p'"
  shows "h = h' \<and> p = p'"
proof -
  let ?b = "\<lambda>h. if CHR '':'' \<in> set h then CHR ''['' # h @ '']'' else h"
  have join: "JoinHostPort h p = ?b h @ CHR '':'' # p" for h p
    by (simp add: JoinHostPort_def IndexByte_None_iff)
  from assms(1) have "?b h @ CHR '':'' # p = ?b h' @ CHR '':'' # p'" by (simp only: join)
  from split_at_last [OF this assms(2,3)] show ?thesis by (auto split: if_splits)
qed

lemma SplitHostPort_JoinHostPort:
  assumes h: "CHR ''['' \<notin> set h" "CHR '']'' \<notin> set h"
    and p: "CHR '':'' \<notin> set p" "CHR ''['' \<notin> set p" "CHR '']'' \<notin> set p"
  shows "SplitHostPort (JoinHostPort h p) = Ok (h, p)"
proof (cases "CHR '':'' \<in> set h")
  case True
  let ?s = "CHR ''['' # h @ CHR '']'' # CHR '':'' # p"
  have join: "JoinHostPort h p = ?s"
    using True by (simp add: JoinHostPort_def IndexByte_None_iff)
  have "LastIndexByte ((CHR ''['' # h @ '']'') @ CHR '':'' # p) CHR '':'' = Some (Suc (Suc (length h)))"
    by (subst LastIndexByte_append) (use p in simp_all)
  then have last: "LastIndexByte ?s CHR '':'' = Some (Suc (Suc (length h)))" by simp
  have "IndexByte ((CHR ''['' # h) @ CHR '']'' # CHR '':'' # p) CHR '']'' = Some (Suc (length h))"
    by (subst IndexByte_append) (use h in simp_all)
  then have close: "IndexByte ?s CHR '']'' = Some (Suc (length h))" by simp
  show ?thesis unfolding join SplitHostPort_def last close using h p by (simp add: Let_def)
next
  case False
  have join: "JoinHostPort h p = h @ CHR '':'' # p"
    using False by (simp add: JoinHostPort_def)
  have no_br: "take 1 (h @ CHR '':'' # p) \<noteq> ''[''"
    using h by (cases h) auto
  show ?thesis unfolding join SplitHostPort_def LastIndexByte_append [OF p(1)]
    using h p False no_br by (simp add: Let_def)
qed

text \<open>A host with a bare colon in it, printed without brackets, is not an address.\<close>

lemma SplitHostPort_bare_colon:
  assumes "CHR '':'' \<in> set h" and "CHR '':'' \<notin> set p" and "take 1 h \<noteq> ''[''"
  shows "SplitHostPort (h @ CHR '':'' # p) = Err TooManyColons"
proof -
  from assms(1) have ne: "h \<noteq> []" by auto
  with assms(3) have no_br: "take 1 (h @ CHR '':'' # p) \<noteq> ''[''" by (cases h) auto
  show ?thesis unfolding SplitHostPort_def LastIndexByte_append [OF assms(2)]
    using assms(1) no_br by (simp add: Let_def IndexByte_None_iff)
qed

subsection \<open>Dotted addresses\<close>

lemma is_digit_dot [simp]: "\<not> is_digit CHR ''.''"
  by (simp add: is_digit_def)

text \<open>Reading a printed octet.\<close>

lemma parseIPv4Fields_decimal:
  assumes "n \<le> 255"
  shows "\<exists>c k. is_digit c \<and>
     parseIPv4Fields prev 0 0 fields (decimal n @ rest)
       = parseIPv4Fields (Some c) n (Suc k) fields rest"
  using assms
proof (induction n arbitrary: rest rule: decimal.induct)
  case (1 n)
  have d: "n mod 10 < 10" by simp
  show ?case
  proof (cases "10 \<le> n")
    case True
    with "1.prems" have "n div 10 \<le> 255" by simp
    from "1.IH" [OF True this, of "digit_char (n mod 10) # rest"] obtain c k
      where "parseIPv4Fields prev 0 0 fields (decimal (n div 10) @ digit_char (n mod 10) # rest)
         = parseIPv4Fields (Some c) (n div 10) (Suc k) fields (digit_char (n mod 10) # rest)"
      by blast
    moreover from True have "n div 10 \<noteq> 0" by simp
    ultimately have "parseIPv4Fields prev 0 0 fields (decimal n @ rest)
        = parseIPv4Fields (Some (digit_char (n mod 10))) n (Suc (Suc k)) fields rest"
      using True "1.prems" by (subst decimal.simps) (simp add: digit_char_val [OF d])
    then show ?thesis using digit_char_val(1) [OF d] by blast
  next
    case False
    then have "decimal n = [digit_char n]" by (subst decimal.simps) simp
    with False show ?thesis
      by (intro exI [of _ "digit_char n"] exI [of _ 0]) (simp add: digit_char_val)
  qed
qed

lemma parseIPv4_dotted:
  assumes "a \<le> 255" "b \<le> 255" "c \<le> 255" "d \<le> 255"
  shows "parseIPv4 (dotted a b c d) = Some (v4_in_v6 [of_nat a, of_nat b, of_nat c, of_nat d])"
proof -
  have sep: "parseIPv4Fields prev 0 0 fs (decimal n @ CHR ''.'' # decimal m @ r)
      = parseIPv4Fields (Some CHR ''.'') 0 0 (fs @ [of_nat n]) (decimal m @ r)"
    if "n \<le> 255" "length fs < 3" for prev fs n m r
  proof -
    from parseIPv4Fields_decimal [OF that(1), of prev fs "CHR ''.'' # decimal m @ r"]
    obtain x k where "is_digit x" "parseIPv4Fields prev 0 0 fs (decimal n @ CHR ''.'' # decimal m @ r)
        = parseIPv4Fields (Some x) n (Suc k) fs (CHR ''.'' # decimal m @ r)" by blast
    with that(2) show ?thesis by auto
  qed
  from parseIPv4Fields_decimal [OF assms(4), of "Some CHR ''.''" "[of_nat a, of_nat b, of_nat c]" "[]"]
  have "parseIPv4Fields (Some CHR ''.'') 0 0 [of_nat a, of_nat b, of_nat c] (decimal d)
      = Some [of_nat a, of_nat b, of_nat c, of_nat d]" by auto
  then show ?thesis
    using sep [OF assms(1), of "[]" None b] sep [OF assms(2), of "[of_nat a]" "Some CHR ''.''" c]
      sep [OF assms(3), of "[of_nat a, of_nat b]" "Some CHR ''.''" d "[]"]
    by (simp add: parseIPv4_def dotted_def)
qed

lemma find_dotted:
  "find (\<lambda>c. c = CHR ''.'' \<or> c = CHR '':'' \<or> c = CHR ''%'') (decimal n @ CHR ''.'' # r) = Some CHR ''.''"
proof -
  have "find P (xs @ x # ys) = Some x" if "\<forall>y \<in> set xs. \<not> P y" "P x" for P xs and x :: char and ys
    using that by (induction xs) auto
  moreover have "\<forall>c \<in> set (decimal n). \<not> (c = CHR ''.'' \<or> c = CHR '':'' \<or> c = CHR ''%'')"
    by (auto dest!: decimal_digits simp: is_digit_def)
  ultimately show ?thesis by simp
qed

lemma ParseIP_dotted:
  assumes "a \<le> 255" "b \<le> 255" "c \<le> 255" "d \<le> 255"
  shows "ParseIP (dotted a b c d) = Some (v4_in_v6 [of_nat a, of_nat b, of_nat c, of_nat d])"
proof -
  have "find (\<lambda>c. c = CHR ''.'' \<or> c = CHR '':'' \<or> c = CHR ''%'') (dotted a b c d) = Some CHR ''.''"
    unfolding dotted_def by (rule find_dotted)
  with parseIPv4_dotted [OF assms] show ?thesis by (simp add: ParseIP_def)
qed

lemma IsLoopback_v4 [simp]: "IsLoopback (v4_in_v6 (x # xs)) \<longleftrightarrow> x = 127"
  by (simp add: IsLoopback_def To4_def v4_in_v6_def)

text \<open>A parsed address has sixteen bytes.\<close>

lemma parseIPv4Fields_length:
  "parseIPv4Fields prev val digLen fields s = Some fs \<Longrightarrow> length fields \<le> 3 \<Longrightarrow> length fs = 4"
  by (induction prev val digLen fields s rule: parseIPv4Fields.induct) (auto split: if_splits)

lemma parseIPv6_loop_length:
  "parseIPv6_loop ip ell s = Some (ip', ell') \<Longrightarrow> even (length ip) \<Longrightarrow> length ip \<le> 16 \<Longrightarrow> length ip' \<le> 16"
proof (induction "length s" arbitrary: ip ell s rule: less_induct)
  case less
  show ?case
  proof (cases "16 \<le> length ip")
    case True
    with less.prems show ?thesis by (subst (asm) (1) parseIPv6_loop.simps) (auto split: if_splits)
  next
    case False
    with less.prems(2) have short: "length ip \<le> 14" by presburger
    from less.prems(1) False obtain acc t where g: "hex_group 0 0 s = Some (acc, t)"
      by (subst (asm) (1) parseIPv6_loop.simps) (auto split: option.splits)
    then have t: "length t < length s" using hex_group_length by blast
    let ?ip = "ip @ [of_nat (acc div 256), of_nat (acc mod 256)]"
    have IH: "parseIPv6_loop ?ip l u = Some (ip', ell') \<Longrightarrow> length u < length s \<Longrightarrow> length ip' \<le> 16" for l u
      using less.hyps [of u ?ip l] less.prems(2) short by simp
    from less.prems(1) False g short t show ?thesis
      by (subst (asm) (1) parseIPv6_loop.simps)
        (auto simp: Let_def dest!: parseIPv4Fields_length IH split: if_splits list.splits)
  qed
qed

lemma expand_ellipsis_length: "expand_ellipsis (ip, ell) = Some r \<Longrightarrow> length ip \<le> 16 \<Longrightarrow> length r = 16"
  by (auto simp: expand_ellipsis_def Let_def split: if_splits option.splits)

lemma ParseIP_length: "ParseIP s = Some ip \<Longrightarrow> length ip = 16"
  by (auto simp: ParseIP_def parseIPv4_def parseIPv6_def v4_in_v6_def bind_eq_Some_conv
      dest!: parseIPv4Fields_length parseIPv6_loop_length expand_ellipsis_length
      split: option.splits if_splits)

end
