(* ===== verification/Proxy_Config.thy ===== *)
theory Proxy_Config
  imports Env_Reader Go_Net
begin

text \<open>
  The sidecar's configuration, \<open>internal/proxy/config.go\<close>: the \<open>Config\<close> struct, the
  environment readers, \<open>LoadConfig\<close> with its four validity checks in the source's order,
  and \<open>TargetAddr\<close>. Durations and \<open>int\<close>s are integers that stay within 64 bits.
\<close>

record Config =
  ListenAddr :: string
  TargetHost :: string
  TargetPort :: int
  MaxSessionDuration :: Duration
  PingInterval :: Duration
  PingTimeout :: Duration
  MaxConnections :: int
  ReadLimit :: int
  RevalidationInterval :: Duration
  RevalidationEndpoint :: string
  TargetHealthBannerPrefix :: string
  TargetHealthInterval :: Duration

datatype ConfigError =
    BadTargetPort int
  | BadPingInterval Duration Duration
  | BadReadLimit int
  | BadTargetHealthInterval Duration Duration

definition defaultTargetHealthBannerPrefix :: string where
  "defaultTargetHealthBannerPrefix = ''SSH-2.0-''"

definition defaultTargetHealthInterval :: Duration where
  "defaultTargetHealthInterval = 30 * Second"

definition targetHealthDialTimeout :: Duration where
  "targetHealthDialTimeout = 2 * Second"

definition getEnv :: "env \<Rightarrow> string \<Rightarrow> string \<Rightarrow> string" where
  "getEnv env key defaultValue =
     (let value = Getenv env key in if value \<noteq> [] then value else defaultValue)"

definition getEnvAllowEmpty :: "env \<Rightarrow> string \<Rightarrow> string \<Rightarrow> string" where
  "getEnvAllowEmpty env key defaultValue =
     (case env key of Some value \<Rightarrow> value | None \<Rightarrow> defaultValue)"

definition getDurationEnv :: "env \<Rightarrow> string \<Rightarrow> Duration \<Rightarrow> Duration" where
  "getDurationEnv env key defaultValue =
     (let value = Getenv env key in
      if value \<noteq> [] then
        (case ParseDuration value of None \<Rightarrow> defaultValue | Some d \<Rightarrow> d)
      else defaultValue)"

definition getIntEnv :: "env \<Rightarrow> string \<Rightarrow> int \<Rightarrow> int" where
  "getIntEnv env key defaultValue =
     (let value = Getenv env key in
      if value \<noteq> [] then
        (case Atoi_opt value of None \<Rightarrow> defaultValue | Some n \<Rightarrow> n)
      else defaultValue)"

text \<open>The struct literal of \<open>LoadConfig\<close>, before its checks.\<close>

definition readConfig :: "env \<Rightarrow> Config" where
  "readConfig env =
     \<lparr>ListenAddr = getEnv env ''LISTEN_ADDR'' '':8080'',
      TargetHost = getEnv env ''TARGET_HOST'' ''127.0.0.1'',
      TargetPort = getIntEnv env ''TARGET_PORT'' 2222,
      MaxSessionDuration = getDurationEnv env ''MAX_SESSION_DURATION'' (12 * Hour),
      PingInterval = getDurationEnv env ''PING_INTERVAL'' (30 * Second),
      PingTimeout = getDurationEnv env ''PING_TIMEOUT'' (60 * Second),
      MaxConnections = getIntEnv env ''MAX_CONNECTIONS'' 10,
      ReadLimit = getIntEnv env ''READ_LIMIT'' 65536,
      RevalidationInterval = getDurationEnv env ''REVALIDATION_INTERVAL'' (5 * Minute),
      RevalidationEndpoint = getEnv env ''REVALIDATION_ENDPOINT'' [],
      TargetHealthBannerPrefix =
        getEnvAllowEmpty env ''TARGET_HEALTH_BANNER_PREFIX'' defaultTargetHealthBannerPrefix,
      TargetHealthInterval =
        getDurationEnv env ''TARGET_HEALTH_INTERVAL'' defaultTargetHealthInterval\<rparr>"

definition LoadConfig :: "env \<Rightarrow> (ConfigError, Config) result" where
  "LoadConfig env =
     (let config = readConfig env in
      if TargetPort config < 1 \<or> 65535 < TargetPort config
      then Err (BadTargetPort (TargetPort config))
      else if PingTimeout config \<le> PingInterval config
      then Err (BadPingInterval (PingInterval config) (PingTimeout config))
      else if ReadLimit config < 1024 \<or> 10 * 1024 * 1024 < ReadLimit config
      then Err (BadReadLimit (ReadLimit config))
      else if TargetHealthInterval config \<le> targetHealthDialTimeout
      then Err (BadTargetHealthInterval (TargetHealthInterval config) targetHealthDialTimeout)
      else Ok config)"

text \<open>\<open>fmt.Sprintf("%s:%d", c.TargetHost, c.TargetPort)\<close>.\<close>

definition TargetAddr :: "Config \<Rightarrow> string" where
  "TargetAddr c = TargetHost c @ CHR '':'' # Itoa (TargetPort c)"

text \<open>The documented meaning of a valid configuration, and the environment that spells one out.\<close>

definition config_ok :: "Config \<Rightarrow> bool" where
  "config_ok c \<longleftrightarrow>
     1 \<le> TargetPort c \<and> TargetPort c \<le> 65535 \<and>
     PingInterval c < PingTimeout c \<and>
     1024 \<le> ReadLimit c \<and> ReadLimit c \<le> 10485760 \<and>
     2 * Second < TargetHealthInterval c"

definition config_int64 :: "Config \<Rightarrow> bool" where
  "config_int64 c \<longleftrightarrow>
     int64_ok (TargetPort c) \<and> int64_ok (MaxSessionDuration c) \<and> int64_ok (PingInterval c) \<and>
     int64_ok (PingTimeout c) \<and> int64_ok (MaxConnections c) \<and> int64_ok (ReadLimit c) \<and>
     int64_ok (RevalidationInterval c) \<and> int64_ok (TargetHealthInterval c)"

definition show_duration :: "Duration \<Rightarrow> string" where
  "show_duration d = Itoa d @ ''ns''"

definition config_env :: "Config \<Rightarrow> env" where
  "config_env c =
     [''LISTEN_ADDR'' \<mapsto> ListenAddr c,
      ''TARGET_HOST'' \<mapsto> TargetHost c,
      ''TARGET_PORT'' \<mapsto> Itoa (TargetPort c),
      ''MAX_SESSION_DURATION'' \<mapsto> show_duration (MaxSessionDuration c),
      ''PING_INTERVAL'' \<mapsto> show_duration (PingInterval c),
      ''PING_TIMEOUT'' \<mapsto> show_duration (PingTimeout c),
      ''MAX_CONNECTIONS'' \<mapsto> Itoa (MaxConnections c),
      ''READ_LIMIT'' \<mapsto> Itoa (ReadLimit c),
      ''REVALIDATION_INTERVAL'' \<mapsto> show_duration (RevalidationInterval c),
      ''REVALIDATION_ENDPOINT'' \<mapsto> RevalidationEndpoint c,
      ''TARGET_HEALTH_BANNER_PREFIX'' \<mapsto> TargetHealthBannerPrefix c,
      ''TARGET_HEALTH_INTERVAL'' \<mapsto> show_duration (TargetHealthInterval c)]"

section \<open>The readers satisfy the contract\<close>

interpretation proxy_env: typed_env getEnv Some
  by unfold_locales (simp_all add: getEnv_def)

interpretation proxy_dur: typed_env getDurationEnv ParseDuration
  by unfold_locales (simp_all add: getDurationEnv_def)

interpretation proxy_int: typed_env getIntEnv Atoi_opt
  by unfold_locales (simp_all add: getIntEnv_def)

section \<open>Lemmas\<close>

lemma ParseDuration_show:
  assumes "int64_ok d"
  shows "ParseDuration (show_duration d) = Some d"
  using ParseDuration_Itoa [of "''ns''" 1 d] assms
  by (simp add: show_duration_def unitMap_def number_start_def is_digit_def)

lemma LoadConfig_Ok_iff: "LoadConfig env = Ok c \<longleftrightarrow> c = readConfig env \<and> config_ok c"
  by (auto simp: LoadConfig_def config_ok_def Let_def targetHealthDialTimeout_def)

lemma getDurationEnv_int64: "int64_ok d \<Longrightarrow> int64_ok (getDurationEnv env key d)"
  by (rule proxy_dur.get_range) (auto dest: ParseDuration_int64)

lemma getIntEnv_int64: "int64_ok d \<Longrightarrow> int64_ok (getIntEnv env key d)"
  by (rule proxy_int.get_range) (auto dest: Atoi_opt_int64)

lemma int64_ok_small: "\<bar>n\<bar> \<le> 10 ^ 18 \<Longrightarrow> int64_ok n"
  by (auto simp: int64_ok_def minInt64_def maxInt64_def abs_le_iff)

lemma readConfig_int64: "config_int64 (readConfig env)"
  by (simp add: config_int64_def readConfig_def getDurationEnv_int64 getIntEnv_int64
      int64_ok_small duration_units defaultTargetHealthInterval_def)

lemma Itoa_bare_host:
  assumes "CHR ''['' \<notin> set h" and "CHR '':'' \<in> set h"
  shows "SplitHostPort (h @ CHR '':'' # Itoa n) = Err TooManyColons"
proof -
  from assms(1) have "take 1 h \<noteq> ''[''" by (cases h) auto
  with assms(2) show ?thesis by (intro SplitHostPort_bare_colon) simp_all
qed

section \<open>Properties\<close>

text \<open>
  Every configuration \<open>LoadConfig\<close> accepts has a target port between 1 and 65535, a
  ping interval below the ping timeout, a read limit between 1 KiB and 10 MiB and a probe
  interval above the probe's own timeout, and every number in it fits 64 bits, whatever
  the environment holds.
\<close>

theorem LoadConfig_valid:
  assumes "LoadConfig env = Ok c"
  shows "config_ok c \<and> config_int64 c"
  using assms readConfig_int64 [of env] by (auto simp: LoadConfig_Ok_iff)

theorem LoadConfig_valid_witness:
  "\<exists>c. LoadConfig [''TARGET_PORT'' \<mapsto> ''80''] = Ok c \<and> TargetPort c = 80 \<and> config_ok c \<and> config_int64 c"
proof -
  let ?c = "readConfig [''TARGET_PORT'' \<mapsto> ''80'']"
  have l: "LoadConfig [''TARGET_PORT'' \<mapsto> ''80''] = Ok ?c" and p: "TargetPort ?c = 80"
    by code_simp+
  from LoadConfig_valid [OF l] l p show ?thesis by blast
qed

text \<open>
  C32: configuration round trip. Writing every field of a valid configuration into its
  environment variable, numbers in decimal and durations in nanoseconds, and loading it
  gives the same configuration back.
\<close>

theorem LoadConfig_config_env:
  assumes "config_ok c" and "config_int64 c" and "ListenAddr c \<noteq> []" and "TargetHost c \<noteq> []"
  shows "LoadConfig (config_env c) = Ok c"
proof -
  have show_ne: "show_duration d \<noteq> []" for d by (simp add: show_duration_def)
  have "readConfig (config_env c) = c"
    using assms(2-4)
    by (cases c) (simp add: readConfig_def config_env_def config_int64_def proxy_dur.get_Some proxy_int.get_Some
        proxy_env.get_Some ParseDuration_show Atoi_opt_Itoa show_ne getEnv_def Getenv_def
        getEnvAllowEmpty_def Let_def)
  with assms(1) show ?thesis by (simp add: LoadConfig_Ok_iff)
qed

theorem LoadConfig_config_env_witness:
  "LoadConfig (config_env (readConfig Map.empty)) = Ok (readConfig Map.empty)"
proof (rule LoadConfig_config_env)
  show "config_ok (readConfig Map.empty)" by code_simp
  show "config_int64 (readConfig Map.empty)" by (rule readConfig_int64)
  show "ListenAddr (readConfig Map.empty) \<noteq> []" by code_simp
  show "TargetHost (readConfig Map.empty) \<noteq> []" by code_simp
qed

text \<open>
  C33: the address the proxy dials. For a target host without a colon \<open>TargetAddr\<close> is an
  address that splits back into that host and port; for a bare IPv6 host it is one that
  \<open>net.SplitHostPort\<close>, and so every dial, refuses, although \<open>LoadConfig\<close> accepts it.
\<close>

theorem TargetAddr_splits:
  assumes "CHR ''['' \<notin> set (TargetHost c)" and "CHR '']'' \<notin> set (TargetHost c)"
  shows "SplitHostPort (TargetAddr c) =
     (if CHR '':'' \<in> set (TargetHost c) then Err TooManyColons
      else Ok (TargetHost c, Itoa (TargetPort c)))"
proof (cases "CHR '':'' \<in> set (TargetHost c)")
  case True
  with assms show ?thesis by (simp add: TargetAddr_def Itoa_bare_host)
next
  case False
  then have "TargetAddr c = JoinHostPort (TargetHost c) (Itoa (TargetPort c))"
    by (simp add: TargetAddr_def JoinHostPort_def)
  with assms False show ?thesis by (simp add: SplitHostPort_JoinHostPort)
qed

theorem TargetAddr_splits_witness:
  "\<exists>c. LoadConfig [''TARGET_HOST'' \<mapsto> ''::1''] = Ok c \<and> SplitHostPort (TargetAddr c) = Err TooManyColons"
proof -
  let ?c = "readConfig [''TARGET_HOST'' \<mapsto> ''::1'']"
  have l: "LoadConfig [''TARGET_HOST'' \<mapsto> ''::1''] = Ok ?c" and h: "TargetHost ?c = ''::1''"
    by code_simp+
  have "SplitHostPort (TargetAddr ?c) = Err TooManyColons"
    by (subst TargetAddr_splits) (simp_all add: h)
  with l show ?thesis by blast
qed

end
