(* ===== verification/Proxy_Session_Manager.thy ===== *)
theory Proxy_Session_Manager
  imports Transition Proxy_Config
begin

text \<open>
  The sidecar's concurrency limit, \<open>SessionManager\<close> of \<open>internal/proxy/session.go\<close>. The
  counter and its limit are 32-bit signed values. \<open>Acquire\<close> is a compare-and-swap loop; it
  is modelled twice: as the function one goroutine runs, with the other goroutines'
  writes to the counter given by an arbitrary interference, and as a step relation over
  any number of goroutines, which is shown to implement an atomic bounded set of holders.
\<close>

record SessionManager =
  maxConnections :: "32 word"
  active :: "32 word"

definition NewSessionManager :: "int \<Rightarrow> SessionManager" where
  "NewSessionManager n = \<lparr>maxConnections = word_of_int n, active = 0\<rparr>"

text \<open>The atomic operations of \<open>sync/atomic.Int32\<close> the code uses.\<close>

definition CompareAndSwap :: "32 word \<Rightarrow> 32 word \<Rightarrow> SessionManager \<Rightarrow> bool \<times> SessionManager" where
  "CompareAndSwap old new sm =
     (if active sm = old then (True, sm\<lparr>active := new\<rparr>) else (False, sm))"

text \<open>
  The loop of \<open>Acquire\<close>. \<open>interf k v\<close> is the value the other goroutines have left in the
  counter when the \<open>k\<close>-th compare-and-swap runs, if it held \<open>v\<close> at the load before it.
  \<open>None\<close> is a loop that never ends.
\<close>

partial_function (option) Acquire ::
    "(nat \<Rightarrow> 32 word \<Rightarrow> 32 word) \<Rightarrow> nat \<Rightarrow> SessionManager \<Rightarrow> (bool \<times> SessionManager) option" where
  "Acquire interf k sm =
     (let current = active sm in
      if sint (maxConnections sm) \<le> sint current then Some (False, sm)
      else
        let (swapped, sm') = CompareAndSwap current (current + 1) (sm\<lparr>active := interf k current\<rparr>) in
        if swapped then Some (True, sm') else Acquire interf (Suc k) sm')"

definition Release :: "SessionManager \<Rightarrow> SessionManager" where
  "Release sm = sm\<lparr>active := active sm - 1\<rparr>"

definition ActiveCount :: "SessionManager \<Rightarrow> 32 word" where
  "ActiveCount sm = active sm"

text \<open>The abstract operation a caller may think of: test and increment in one step.\<close>

definition Acquire_spec :: "SessionManager \<Rightarrow> bool \<times> SessionManager" where
  "Acquire_spec sm =
     (if sint (active sm) < sint (maxConnections sm)
      then (True, sm\<lparr>active := active sm + 1\<rparr>) else (False, sm))"

definition sm_inv :: "SessionManager \<Rightarrow> bool" where
  "sm_inv sm \<longleftrightarrow> 0 \<le> sint (active sm)"

subsection \<open>Any number of goroutines\<close>

datatype acq_pc =
    Outside               \<comment> \<open>not in a handler\<close>
  | Loading               \<comment> \<open>at the top of the loop of \<open>Acquire\<close>\<close>
  | Swapping "32 word"    \<comment> \<open>loaded this value, about to compare and swap\<close>
  | Holding               \<comment> \<open>\<open>Acquire\<close> returned true, \<open>Release\<close> still deferred\<close>
  | Refused               \<comment> \<open>\<open>Acquire\<close> returned false\<close>

record sm_state =
  mgr :: SessionManager
  pcs :: "nat \<Rightarrow> acq_pc"

definition sm_init :: "int \<Rightarrow> sm_state \<Rightarrow> bool" where
  "sm_init n s \<longleftrightarrow> mgr s = NewSessionManager n \<and> pcs s = (\<lambda>_. Outside)"

inductive sm_step :: "sm_state \<Rightarrow> sm_state \<Rightarrow> bool" where
  enter: "pcs s i = Outside \<Longrightarrow> sm_step s (s\<lparr>pcs := (pcs s)(i := Loading)\<rparr>)"
| load_full: "pcs s i = Loading \<Longrightarrow> sint (maxConnections (mgr s)) \<le> sint (active (mgr s)) \<Longrightarrow>
    sm_step s (s\<lparr>pcs := (pcs s)(i := Refused)\<rparr>)"
| load: "pcs s i = Loading \<Longrightarrow> sint (active (mgr s)) < sint (maxConnections (mgr s)) \<Longrightarrow>
    sm_step s (s\<lparr>pcs := (pcs s)(i := Swapping (active (mgr s)))\<rparr>)"
| swap: "pcs s i = Swapping v \<Longrightarrow> CompareAndSwap v (v + 1) (mgr s) = (True, m) \<Longrightarrow>
    sm_step s (s\<lparr>mgr := m, pcs := (pcs s)(i := Holding)\<rparr>)"
| retry: "pcs s i = Swapping v \<Longrightarrow> CompareAndSwap v (v + 1) (mgr s) = (False, m) \<Longrightarrow>
    sm_step s (s\<lparr>mgr := m, pcs := (pcs s)(i := Loading)\<rparr>)"
| release: "pcs s i = Holding \<Longrightarrow>
    sm_step s (s\<lparr>mgr := Release (mgr s), pcs := (pcs s)(i := Outside)\<rparr>)"
| leave: "pcs s i = Refused \<Longrightarrow> sm_step s (s\<lparr>pcs := (pcs s)(i := Outside)\<rparr>)"

definition holders :: "sm_state \<Rightarrow> nat set" where
  "holders s = at (pcs s) {Holding}"

definition sm_cap :: "sm_state \<Rightarrow> int" where
  "sm_cap s = max 0 (sint (maxConnections (mgr s)))"

definition sm_reach_inv :: "int \<Rightarrow> sm_state \<Rightarrow> bool" where
  "sm_reach_inv n s \<longleftrightarrow>
     maxConnections (mgr s) = word_of_int n \<and>
     finite (holders s) \<and> int (card (holders s)) \<le> sm_cap s \<and>
     sint (active (mgr s)) = int (card (holders s)) \<and>
     (\<forall>i v. pcs s i = Swapping v \<longrightarrow> sint v < sint (maxConnections (mgr s)) \<and> 0 \<le> sint v)"

section \<open>Lemmas\<close>

lemma sint_upper: "sint (w :: 32 word) < 2 ^ 31"
  using sint_lt [of w] by simp

lemma sint_lower: "- (2 ^ 31) \<le> sint (w :: 32 word)"
  using sint_ge [of w] by simp

lemma signed31_id: "- (2 ^ 31) \<le> k \<Longrightarrow> k < 2 ^ 31 \<Longrightarrow> signed_take_bit 31 k = (k :: int)"
  by (rule signed_take_bit_int_eq_self) simp_all

lemma sint_succ: "sint v < sint (m :: 32 word) \<Longrightarrow> sint (v + 1 :: 32 word) = sint v + 1"
  using sint_upper [of m] sint_lower [of v] by (simp add: sint_word_add signed31_id)

lemma sint_pred: "0 < sint v \<Longrightarrow> sint (v - 1 :: 32 word) = sint v - 1"
  using sint_upper [of v] by (simp add: sint_word_diff signed31_id)

lemma sint_max_New: "sint (maxConnections (NewSessionManager n)) = signed_take_bit 31 n"
  by (simp add: NewSessionManager_def sint_sbintrunc')

interpretation sm_pool: slot_pool Acquire_spec Release "\<lambda>sm. sint (active sm)"
  "\<lambda>sm. sint (maxConnections sm)" sm_inv
  by unfold_locales
    (auto simp: Acquire_spec_def Release_def sm_inv_def sint_succ sint_pred split: if_splits)

subsection \<open>The loop of one goroutine\<close>

lemma Acquire_full: "sint (maxConnections sm) \<le> sint (active sm) \<Longrightarrow> Acquire interf k sm = Some (False, sm)"
  by (subst Acquire.simps) simp

lemma Acquire_free:
  "sint (active sm) < sint (maxConnections sm) \<Longrightarrow>
     Acquire interf k sm =
       (if interf k (active sm) = active sm then Some (True, sm\<lparr>active := active sm + 1\<rparr>)
        else Acquire interf (Suc k) (sm\<lparr>active := interf k (active sm)\<rparr>))"
  by (subst Acquire.simps) (auto simp: CompareAndSwap_def Let_def)

lemma Acquire_quiet:
  assumes "interf k (active sm) = active sm"
  shows "Acquire interf k sm = Some (Acquire_spec sm)"
  using assms by (cases "sint (active sm) < sint (maxConnections sm)")
    (simp_all add: Acquire_spec_def Acquire_full Acquire_free)

text \<open>
  With interference, the result is the one the atomic operation gives on the counter as
  it stood at some moment of the call.
\<close>

lemma Acquire_linearises:
  assumes "\<And>v. interf (k + n) v = v"
  shows "\<exists>v. Acquire interf k sm = Some (Acquire_spec (sm\<lparr>active := v\<rparr>))"
  using assms
proof (induction n arbitrary: k sm)
  case 0
  then have "Acquire interf k sm = Some (Acquire_spec (sm\<lparr>active := active sm\<rparr>))"
    by (simp add: Acquire_quiet)
  then show ?case by blast
next
  case (Suc n)
  consider "sint (maxConnections sm) \<le> sint (active sm)"
    | "sint (active sm) < sint (maxConnections sm)" "interf k (active sm) = active sm"
    | "sint (active sm) < sint (maxConnections sm)" "interf k (active sm) \<noteq> active sm"
    by linarith
  then show ?case
  proof cases
    case 1
    then have "Acquire interf k sm = Some (Acquire_spec (sm\<lparr>active := active sm\<rparr>))"
      by (simp add: Acquire_full Acquire_spec_def)
    then show ?thesis by blast
  next
    case 2
    then have "Acquire interf k sm = Some (Acquire_spec (sm\<lparr>active := active sm\<rparr>))"
      by (simp add: Acquire_quiet)
    then show ?thesis by blast
  next
    case 3
    moreover have "\<exists>v. Acquire interf (Suc k) (sm\<lparr>active := interf k (active sm)\<rparr>)
        = Some (Acquire_spec (sm\<lparr>active := interf k (active sm)\<rparr>\<lparr>active := v\<rparr>))"
      using Suc.prems by (intro Suc.IH) simp
    ultimately show ?thesis by (simp add: Acquire_free)
  qed
qed

subsection \<open>All goroutines\<close>

lemma holders_simps:
  "holders (s\<lparr>pcs := (pcs s)(i := Holding)\<rparr>) = insert i (holders s)"
  "pc \<noteq> Holding \<Longrightarrow> holders (s\<lparr>pcs := (pcs s)(i := pc)\<rparr>) = holders s - {i}"
  "holders (s\<lparr>mgr := m, pcs := (pcs s)(i := Holding)\<rparr>) = insert i (holders s)"
  "pc \<noteq> Holding \<Longrightarrow> holders (s\<lparr>mgr := m, pcs := (pcs s)(i := pc)\<rparr>) = holders s - {i}"
  by (auto simp: holders_def split: if_splits)

lemma not_holder: "pcs s i \<noteq> Holding \<Longrightarrow> i \<notin> holders s"
  and holder: "pcs s i = Holding \<Longrightarrow> i \<in> holders s"
  by (simp_all add: holders_def)

lemma swap_facts:
  assumes "pcs s i = Swapping v" and "CompareAndSwap v (v + 1) (mgr s) = (True, m)" and "sm_reach_inv n s"
  shows "m = (mgr s)\<lparr>active := v + 1\<rparr>" and "active (mgr s) = v"
    and "sint v < sint (maxConnections (mgr s))"
    and "int (card (holders s)) < sint (maxConnections (mgr s))"
proof -
  from assms show m: "m = (mgr s)\<lparr>active := v + 1\<rparr>" and v: "active (mgr s) = v"
    by (auto simp: CompareAndSwap_def split: if_splits)
  from assms show lt: "sint v < sint (maxConnections (mgr s))" by (auto simp: sm_reach_inv_def)
  with v assms(3) show "int (card (holders s)) < sint (maxConnections (mgr s))"
    by (simp add: sm_reach_inv_def)
qed

lemma sm_step_inv: "sm_step s t \<Longrightarrow> sm_reach_inv n s \<Longrightarrow> sm_reach_inv n t"
proof (induction rule: sm_step.induct)
  case (swap s i v m)
  note facts = swap_facts [OF swap]
  from swap have "i \<notin> holders s" by (simp add: not_holder)
  with swap facts show ?case
    by (auto simp: sm_reach_inv_def holders_simps sint_succ sm_cap_def)
next
  case (release s i)
  then have i: "i \<in> holders s" and fin: "finite (holders s)"
    by (auto simp: holder sm_reach_inv_def)
  then have "0 < card (holders s)" by (auto simp: card_gt_0_iff)
  with release i fin show ?case
    by (auto simp: sm_reach_inv_def holders_simps sm_cap_def Release_def sint_pred card_Diff_singleton)
qed (auto simp: sm_reach_inv_def holders_simps not_holder sm_cap_def CompareAndSwap_def split: if_splits)

lemma sm_init_inv: "sm_init n s \<Longrightarrow> sm_reach_inv n s"
  by (simp add: sm_init_def sm_reach_inv_def holders_def at_def sm_cap_def NewSessionManager_def)

lemma slot_step_sim:
  assumes "sm_step s t" and "sm_reach_inv n s"
  shows "holders t = holders s \<or> slot_step (max 0 (sint (word_of_int n :: 32 word))) (holders s) (holders t)"
  using assms
proof (induction rule: sm_step.induct)
  case (swap s i v m)
  then have "i \<notin> holders s" by (simp add: not_holder)
  with swap swap_facts(4) [OF swap] show ?case
    by (auto simp: holders_simps sm_reach_inv_def intro!: slot_step.intros)
next
  case (release s i)
  then show ?case by (auto simp: holders_simps holder intro: slot_step.intros)
qed (simp_all add: holders_simps not_holder)

interpretation sm_sys: invariant_system "sm_init n" sm_step "sm_reach_inv n" for n
  by unfold_locales (auto intro: sm_init_inv sm_step_inv)

interpretation sm_sim: simulation "sm_init n" sm_step "sm_reach_inv n" holders
  "slot_step (max 0 (sint (word_of_int n :: 32 word)))" for n
  by unfold_locales (rule slot_step_sim)

text \<open>A run in which goroutine 0 enters a manager of capacity one.\<close>

definition sm_start :: "int \<Rightarrow> sm_state" where
  "sm_start n = \<lparr>mgr = NewSessionManager n, pcs = (\<lambda>_. Outside)\<rparr>"

definition sm_one_holder :: sm_state where
  "sm_one_holder = \<lparr>mgr = \<lparr>maxConnections = 1, active = 1\<rparr>, pcs = (\<lambda>_. Outside)(0 := Holding)\<rparr>"

lemma sm_start_init: "sm_init n (sm_start n)"
  by (simp add: sm_init_def sm_start_def)

lemma sm_start_reach: "reach (sm_init n) sm_step (sm_start n)"
  by (rule reach_init) (rule sm_start_init)

lemma sm_one_holder_run: "sm_step\<^sup>*\<^sup>* (sm_start 1) sm_one_holder"
proof -
  let ?m = "\<lparr>maxConnections = 1, active = 0\<rparr> :: SessionManager"
  let ?s = "\<lambda>pc. \<lparr>mgr = ?m, pcs = (\<lambda>_. Outside)(0 := pc)\<rparr> :: sm_state"
  have "sm_step (sm_start 1) (?s Loading)"
    using sm_step.enter [of "sm_start 1" 0] by (simp add: sm_start_def NewSessionManager_def)
  moreover have "sm_step (?s Loading) (?s (Swapping 0))"
    using sm_step.load [of "?s Loading" 0] by simp
  moreover have "sm_step (?s (Swapping 0)) sm_one_holder"
    using sm_step.swap [of "?s (Swapping 0)" 0 0] by (simp add: CompareAndSwap_def sm_one_holder_def)
  ultimately show ?thesis by (meson converse_rtranclp_into_rtranclp rtranclp.rtrancl_refl)
qed

lemma sm_one_holder_reach: "reach (sm_init 1) sm_step sm_one_holder"
  by (rule reach_rtranclp [OF sm_one_holder_run sm_start_reach])

section \<open>Properties\<close>

text \<open>
  C3: the connection limit holds under every interleaving. In every reachable state the
  number of goroutines between a successful \<open>Acquire\<close> and their \<open>Release\<close> is at most the
  configured limit read as a 32-bit value (zero if that is negative), and the counter that
  \<open>ActiveCount\<close> and the health endpoint report is exactly that number.
\<close>

theorem SessionManager_bounded:
  assumes "reach (sm_init n) sm_step s"
  shows "int (card (holders s)) \<le> max 0 (sint (maxConnections (NewSessionManager n)))
    \<and> sint (ActiveCount (mgr s)) = int (card (holders s)) \<and> finite (holders s)"
  using sm_sys.reach_inv [OF assms]
  by (auto simp: sm_reach_inv_def sm_cap_def ActiveCount_def NewSessionManager_def)

theorem SessionManager_bounded_witness:
  "reach (sm_init 1) sm_step sm_one_holder \<and> holders sm_one_holder = {0}
    \<and> sint (ActiveCount (mgr sm_one_holder)) = 1"
proof -
  have h: "holders sm_one_holder = {0}" by (auto simp: holders_def sm_one_holder_def split: if_splits)
  with SessionManager_bounded [OF sm_one_holder_reach] sm_one_holder_reach show ?thesis by simp
qed





text \<open>
  C35: the limit is the configured number exactly when that number fits 32 bits. A larger
  \<open>MAX_CONNECTIONS\<close> is accepted by \<open>LoadConfig\<close> and truncated; at 2 to the 32 the limit is
  zero and every connection is refused, on the first attempt and whatever other
  goroutines do.
\<close>

theorem MaxConnections_truncated:
  "(sint (maxConnections (NewSessionManager n)) = n \<longleftrightarrow> - (2 ^ 31) \<le> n \<and> n < 2 ^ 31) \<and>
   (\<exists>c. LoadConfig [''MAX_CONNECTIONS'' \<mapsto> ''4294967296''] = Ok c \<and> MaxConnections c = 4294967296 \<and>
      (\<forall>interf. \<exists>sm. Acquire interf 0 (NewSessionManager (MaxConnections c)) = Some (False, sm)))"
proof
  show "sint (maxConnections (NewSessionManager n)) = n \<longleftrightarrow> - (2 ^ 31) \<le> n \<and> n < 2 ^ 31"
    unfolding sint_max_New by (rule signed_take_bit_int_eq_self_iff)
  let ?c = "readConfig [''MAX_CONNECTIONS'' \<mapsto> ''4294967296'']"
  have "LoadConfig [''MAX_CONNECTIONS'' \<mapsto> ''4294967296''] = Ok ?c" and m: "MaxConnections ?c = 4294967296"
    by code_simp+
  moreover have "Acquire interf 0 (NewSessionManager 4294967296)
      = Some (False, NewSessionManager 4294967296)" for interf
    by (rule Acquire_full) (simp add: NewSessionManager_def)
  ultimately show "\<exists>c. LoadConfig [''MAX_CONNECTIONS'' \<mapsto> ''4294967296''] = Ok c \<and> MaxConnections c = 4294967296 \<and>
      (\<forall>interf. \<exists>sm. Acquire interf 0 (NewSessionManager (MaxConnections c)) = Some (False, sm))"
    by (intro exI [of _ ?c]) auto
qed

end
