(* ===== verification/Proxy_Metrics.thy ===== *)
theory Proxy_Metrics
  imports Go_Base
begin

text \<open>
  The sidecar's metrics, \<open>internal/proxy/metrics.go\<close>, and the revalidation hook,
  \<open>internal/proxy/revalidator.go\<close>. The metric library is not part of the repository, so the
  model records the calls the program makes on it, in order; what a counter or a gauge
  shows is a function of these calls.
\<close>

datatype direction = ws_to_tcp | tcp_to_ws

datatype reason = capacity_exceeded | upgrade_failed | tcp_dial_failed | max_duration | ping_failed

datatype metric_call =
    ConnectionsTotal_Inc
  | ActiveConnections_Inc
  | ActiveConnections_Dec
  | ConnectionErrors_Inc reason
  | BytesTransferred_Add direction nat
  | ConnectionDuration_Observe
  | TargetReachable_Set nat

type_synonym metrics = "metric_call list"

text \<open>The metrics \<open>NewMetrics\<close> registers: name, label names and histogram buckets.\<close>

record metric_desc =
  metric_name :: string
  metric_labels :: "string list"
  metric_buckets :: "nat list"

definition NewMetrics :: "metric_desc list" where
  "NewMetrics =
     [\<lparr>metric_name = ''ws_proxy_connections_total'', metric_labels = [], metric_buckets = []\<rparr>,
      \<lparr>metric_name = ''ws_proxy_active_connections'', metric_labels = [], metric_buckets = []\<rparr>,
      \<lparr>metric_name = ''ws_proxy_connection_errors_total'', metric_labels = [''reason''], metric_buckets = []\<rparr>,
      \<lparr>metric_name = ''ws_proxy_bytes_transferred_total'', metric_labels = [''direction''], metric_buckets = []\<rparr>,
      \<lparr>metric_name = ''ws_proxy_connection_duration_seconds'', metric_labels = [],
       metric_buckets = [1, 10, 60, 300, 600, 1800, 3600, 7200, 14400, 28800, 43200]\<rparr>,
      \<lparr>metric_name = ''ws_proxy_target_reachable'', metric_labels = [], metric_buckets = []\<rparr>]"

text \<open>The values the metrics show after a sequence of calls.\<close>

definition active_gauge :: "metrics \<Rightarrow> int" where
  "active_gauge m = int (count_list m ActiveConnections_Inc) - int (count_list m ActiveConnections_Dec)"

fun bytes_counter :: "direction \<Rightarrow> metrics \<Rightarrow> nat" where
  "bytes_counter d [] = 0"
| "bytes_counter d (c # cs) =
     (case c of BytesTransferred_Add d' n \<Rightarrow> (if d' = d then n else 0) | _ \<Rightarrow> 0) + bytes_counter d cs"

definition reachable_gauge :: "metrics \<Rightarrow> nat" where
  "reachable_gauge m = foldl (\<lambda>v c. case c of TargetReachable_Set n \<Rightarrow> n | _ \<Rightarrow> v) 0 m"

text \<open>The revalidator in use: it never objects to a session.\<close>

definition NoOpRevalidate :: "'ctx \<Rightarrow> 'err option" where
  "NoOpRevalidate ctx = None"

section \<open>Lemmas\<close>

lemma bytes_counter_append [simp]: "bytes_counter d (xs @ ys) = bytes_counter d xs + bytes_counter d ys"
  by (induction xs) auto

lemma active_gauge_append [simp]: "active_gauge (xs @ ys) = active_gauge xs + active_gauge ys"
  by (simp add: active_gauge_def)

lemma reachable_gauge_snoc [simp]: "reachable_gauge (xs @ [TargetReachable_Set n]) = n"
  by (simp add: reachable_gauge_def)

text \<open>Registration of the metrics cannot panic: names are distinct and buckets increase.\<close>

lemma NewMetrics_distinct: "distinct (map metric_name NewMetrics)"
  by (simp add: NewMetrics_def)

lemma NewMetrics_buckets: "m \<in> set NewMetrics \<Longrightarrow> sorted_wrt (<) (metric_buckets m)"
  by (auto simp: NewMetrics_def)

end
