(* ===== verification/Proxy_Bridge.thy ===== *)
theory Proxy_Bridge
  imports Proxy_Metrics
begin

text \<open>
  The byte bridge, \<open>internal/proxy/bridge.go\<close>: the two copy loops, \<open>WriteMessage\<close> and
  \<open>WriteControl\<close>. The WebSocket library is not part of the repository: what its reads
  deliver and how its writes end is an input of the model, and its test for close errors
  is a parameter. A loop is a function over what the peers do, one element per
  iteration; \<open>Running\<close> is a loop still blocked in its next read. How the two loops run
  together is in the theory of the session.
\<close>

type_synonym bytes = "8 word list"

definition writeWait :: int where
  "writeWait = 10 * 1000000000"

definition tcpReadBufferSize :: nat where
  "tcpReadBufferSize = 32 * 1024"

text \<open>Message types and close codes of RFC 6455, by the library's names.\<close>

definition BinaryMessage :: int where "BinaryMessage = 2"
definition CloseNormalClosure :: int where "CloseNormalClosure = 1000"
definition CloseGoingAway :: int where "CloseGoingAway = 1001"

datatype 'e loop_end = Running | Ended "'e option"

datatype 'e ws_read = WSMessage int bytes | WSReadError 'e

text \<open>\<open>net.Conn.Write\<close> writes everything or fails after some bytes.\<close>

datatype 'e tcp_write = TCPWrote | TCPWriteError nat 'e

text \<open>\<open>net.Conn.Read\<close>: bytes, the end of the stream, or a failure; the last two may come with bytes.\<close>

datatype 'e tcp_read = TCPData bytes | TCPEOF bytes | TCPReadError bytes 'e

text \<open>\<open>SetWriteDeadline\<close> and then \<open>WriteMessage\<close> on the WebSocket.\<close>

datatype 'e ws_write = DeadlineError 'e | WSWriteError 'e | WSWrote

record bridge =
  tcp_out :: bytes                        \<comment> \<open>bytes the TCP connection has taken\<close>
  ws_out :: "(int \<times> bytes) list"          \<comment> \<open>messages the WebSocket has taken\<close>
  blog :: metrics

definition NewBridge :: bridge where
  "NewBridge = \<lparr>tcp_out = [], ws_out = [], blog = []\<rparr>"

text \<open>
  \<open>WriteMessage\<close>, which runs with the write mutex held: the error it returns, if any, and
  the messages the WebSocket has taken.
\<close>

definition WriteMessage :: "int \<Rightarrow> bytes \<Rightarrow> 'e ws_write \<Rightarrow> bridge \<Rightarrow> 'e option \<times> bridge" where
  "WriteMessage messageType data w b =
     (case w of
        DeadlineError e \<Rightarrow> (Some e, b)
      | WSWriteError e \<Rightarrow> (Some e, b)
      | WSWrote \<Rightarrow> (None, b\<lparr>ws_out := ws_out b @ [(messageType, data)]\<rparr>))"

fun copyWSToTCP ::
    "('e \<Rightarrow> int list \<Rightarrow> bool) \<Rightarrow> ('e ws_read \<times> 'e tcp_write) list \<Rightarrow> bridge \<Rightarrow> 'e loop_end \<times> bridge" where
  "copyWSToTCP IsCloseError [] b = (Running, b)"
| "copyWSToTCP IsCloseError ((WSReadError e, w) # rest) b =
     (if IsCloseError e [CloseNormalClosure, CloseGoingAway] then (Ended None, b)
      else (Ended (Some e), b))"
| "copyWSToTCP IsCloseError ((WSMessage messageType data, w) # rest) b =
     (if messageType \<noteq> BinaryMessage then copyWSToTCP IsCloseError rest b
      else
        case w of
          TCPWriteError n e \<Rightarrow> (Ended (Some e), b\<lparr>tcp_out := tcp_out b @ take n data\<rparr>)
        | TCPWrote \<Rightarrow>
            copyWSToTCP IsCloseError rest
              (b\<lparr>tcp_out := tcp_out b @ data,
                 blog := blog b @ [BytesTransferred_Add ws_to_tcp (length data)]\<rparr>))"

fun copyTCPToWS ::
    "('e tcp_read \<times> 'e ws_write) list \<Rightarrow> bridge \<Rightarrow> 'e loop_end \<times> bridge" where
  "copyTCPToWS [] b = (Running, b)"
| "copyTCPToWS ((TCPEOF data, w) # rest) b = (Ended None, b)"
| "copyTCPToWS ((TCPReadError data e, w) # rest) b = (Ended (Some e), b)"
| "copyTCPToWS ((TCPData data, w) # rest) b =
     (case WriteMessage BinaryMessage data w b of
        (Some e, b') \<Rightarrow> (Ended (Some e), b')
      | (None, b') \<Rightarrow>
          copyTCPToWS rest
            (b'\<lparr>blog := blog b' @ [BytesTransferred_Add tcp_to_ws (length data)]\<rparr>))"

text \<open>
  The specification of the two directions: the byte stream the peer offered before its
  first failure, and the part of it that got through when a write fails.
\<close>

fun ws_payload :: "('e ws_read \<times> 'e tcp_write) list \<Rightarrow> bytes" where
  "ws_payload [] = []"
| "ws_payload ((WSReadError e, w) # rest) = []"
| "ws_payload ((WSMessage t data, w) # rest) =
     (if t \<noteq> BinaryMessage then ws_payload rest
      else case w of TCPWrote \<Rightarrow> data @ ws_payload rest | TCPWriteError n e \<Rightarrow> take n data)"

fun tcp_chunks :: "('e tcp_read \<times> 'e ws_write) list \<Rightarrow> bytes list" where
  "tcp_chunks [] = []"
| "tcp_chunks ((TCPData data, WSWrote) # rest) = data # tcp_chunks rest"
| "tcp_chunks (_ # rest) = []"

text \<open>What the peer sent: every byte of every binary message, whether it got through or not.\<close>

fun ws_sent :: "('e ws_read \<times> 'e tcp_write) list \<Rightarrow> bytes" where
  "ws_sent [] = []"
| "ws_sent ((WSReadError e, w) # rest) = ws_sent rest"
| "ws_sent ((WSMessage t data, w) # rest) = (if t = BinaryMessage then data else []) @ ws_sent rest"

fun tcp_sent :: "('e tcp_read \<times> 'e ws_write) list \<Rightarrow> bytes" where
  "tcp_sent [] = []"
| "tcp_sent ((TCPData data, w) # rest) = data @ tcp_sent rest"
| "tcp_sent ((TCPEOF data, w) # rest) = data @ tcp_sent rest"
| "tcp_sent ((TCPReadError data e, w) # rest) = data @ tcp_sent rest"

section \<open>Lemmas\<close>

lemma copyWSToTCP_out:
  "tcp_out (snd (copyWSToTCP ic rs b)) = tcp_out b @ ws_payload rs"
  by (induction ic rs b rule: copyWSToTCP.induct) (auto split: tcp_write.splits)

lemma copyWSToTCP_frame:
  "ws_out (snd (copyWSToTCP ic rs b)) = ws_out b \<and>
   bytes_counter tcp_to_ws (blog (snd (copyWSToTCP ic rs b))) = bytes_counter tcp_to_ws (blog b)"
  by (induction ic rs b rule: copyWSToTCP.induct) (auto split: tcp_write.splits)

lemma ws_payload_prefix: "prefix (ws_payload rs) (ws_sent rs)"
  by (induction rs rule: ws_payload.induct)
    (auto split: tcp_write.splits intro: take_is_prefix prefix_prefix)

lemma copyWSToTCP_counter:
  "bytes_counter ws_to_tcp (blog (snd (copyWSToTCP ic rs b))) + length (tcp_out b)
     \<le> bytes_counter ws_to_tcp (blog b) + length (tcp_out (snd (copyWSToTCP ic rs b)))"
  by (induction ic rs b rule: copyWSToTCP.induct) (auto split: tcp_write.splits)

lemma copyWSToTCP_counter_exact:
  "\<forall>r \<in> set rs. snd r = TCPWrote \<Longrightarrow>
   bytes_counter ws_to_tcp (blog (snd (copyWSToTCP ic rs b))) + length (tcp_out b)
     = bytes_counter ws_to_tcp (blog b) + length (tcp_out (snd (copyWSToTCP ic rs b)))"
  by (induction ic rs b rule: copyWSToTCP.induct) (auto split: tcp_write.splits)

lemma copyTCPToWS_out:
  "ws_out (snd (copyTCPToWS rs b)) = ws_out b @ map (Pair BinaryMessage) (tcp_chunks rs)"
  by (induction rs b rule: copyTCPToWS.induct) (auto simp: WriteMessage_def split: ws_write.splits)

lemma copyTCPToWS_frame: "tcp_out (snd (copyTCPToWS rs b)) = tcp_out b"
  by (induction rs b rule: copyTCPToWS.induct) (auto simp: WriteMessage_def split: ws_write.splits)

lemma copyTCPToWS_counter:
  "bytes_counter tcp_to_ws (blog (snd (copyTCPToWS rs b)))
     = bytes_counter tcp_to_ws (blog b) + length (concat (tcp_chunks rs))"
  by (induction rs b rule: copyTCPToWS.induct) (auto simp: WriteMessage_def split: ws_write.splits)

lemma tcp_chunks_prefix: "prefix (concat (tcp_chunks rs)) (tcp_sent rs)"
  by (induction rs rule: tcp_chunks.induct) auto

lemma tcp_chunks_sub: "c \<in> set (tcp_chunks rs) \<Longrightarrow> \<exists>w. (TCPData c, w) \<in> set rs"
  by (induction rs rule: tcp_chunks.induct) auto

lemma copyWSToTCP_complete:
  "\<forall>r \<in> set rs. snd r = TCPWrote \<and> (\<exists>t d. fst r = WSMessage t d) \<Longrightarrow>
     fst (copyWSToTCP ic rs b) = Running \<and> ws_payload rs = ws_sent rs"
  by (induction ic rs b rule: copyWSToTCP.induct) auto

section \<open>Properties\<close>

text \<open>
  C24: what the proxy writes to the target is a prefix of the bytes of the client's binary
  messages, in order and without change, whatever fails and whatever other messages the
  client sends; as long as no read and no write fails it is all of them, the loop keeps
  running, and the byte counter has counted each byte once.
\<close>

theorem copyWSToTCP_faithful:
  shows "prefix (tcp_out (snd (copyWSToTCP ic rs NewBridge))) (ws_sent rs) \<and>
    ((\<forall>r \<in> set rs. snd r = TCPWrote \<and> (\<exists>t d. fst r = WSMessage t d)) \<longrightarrow>
       tcp_out (snd (copyWSToTCP ic rs NewBridge)) = ws_sent rs \<and>
       fst (copyWSToTCP ic rs NewBridge) = Running \<and>
       bytes_counter ws_to_tcp (blog (snd (copyWSToTCP ic rs NewBridge))) = length (ws_sent rs))"
  using copyWSToTCP_out [of ic rs NewBridge] ws_payload_prefix [of rs]
    copyWSToTCP_complete [of rs ic NewBridge] copyWSToTCP_counter_exact [of rs ic NewBridge]
  by (auto simp: NewBridge_def)

theorem copyWSToTCP_faithful_witness:
  "tcp_out (snd (copyWSToTCP (\<lambda>e cs. e \<in> set cs)
      [(WSMessage BinaryMessage [1, 2], TCPWrote), (WSMessage 1 [9], TCPWrote),
       (WSMessage BinaryMessage [3], TCPWrote)] NewBridge)) = [1, 2, 3]"
  using copyWSToTCP_faithful [of "\<lambda>e cs. e \<in> set cs"
      "[(WSMessage BinaryMessage [1, 2], TCPWrote), (WSMessage 1 [9], TCPWrote),
        (WSMessage BinaryMessage [3], TCPWrote)]"]
  by (simp add: BinaryMessage_def)

text \<open>
  C25: what the client receives is made of binary messages whose contents, joined, are a
  prefix of the target's byte stream, each no longer than the read buffer as long as reads
  respect the buffer; the byte counter shows exactly the bytes delivered.
\<close>

theorem copyTCPToWS_faithful:
  assumes "\<forall>d w. (TCPData d, w) \<in> set rs \<longrightarrow> length d \<le> tcpReadBufferSize"
  shows "prefix (concat (map snd (ws_out (snd (copyTCPToWS rs NewBridge))))) (tcp_sent rs)
    \<and> (\<forall>m \<in> set (ws_out (snd (copyTCPToWS rs NewBridge))).
         fst m = BinaryMessage \<and> length (snd m) \<le> 32768)
    \<and> bytes_counter tcp_to_ws (blog (snd (copyTCPToWS rs NewBridge)))
        = length (concat (map snd (ws_out (snd (copyTCPToWS rs NewBridge)))))"
proof -
  have out: "ws_out (snd (copyTCPToWS rs NewBridge)) = map (Pair BinaryMessage) (tcp_chunks rs)"
    by (simp add: copyTCPToWS_out NewBridge_def)
  then have snds: "map snd (ws_out (snd (copyTCPToWS rs NewBridge))) = tcp_chunks rs"
    by (simp add: comp_def)
  have "length c \<le> 32768" if "c \<in> set (tcp_chunks rs)" for c
    using assms tcp_chunks_sub [OF that] by (auto simp: tcpReadBufferSize_def)
  then have "\<forall>m \<in> set (ws_out (snd (copyTCPToWS rs NewBridge))).
      fst m = BinaryMessage \<and> length (snd m) \<le> 32768"
    by (auto simp: out)
  then show ?thesis unfolding snds
    by (simp add: tcp_chunks_prefix copyTCPToWS_counter NewBridge_def)
qed

theorem copyTCPToWS_faithful_witness:
  "bytes_counter tcp_to_ws (blog (snd (copyTCPToWS
      [(TCPData [1, 2], WSWrote), (TCPData [3], WSWriteError (0 :: nat))] NewBridge))) = 2"
  using copyTCPToWS_faithful [of "[(TCPData [1, 2], WSWrote), (TCPData [3], WSWriteError (0 :: nat))]"]
  by (simp add: tcpReadBufferSize_def WriteMessage_def NewBridge_def)

end
