(* ===== verification/Proxy_Session.thy ===== *)
theory Proxy_Session
  imports Proxy_Session_Manager Proxy_Bridge
begin

text \<open>
  One proxied connection, \<open>Session\<close> of \<open>internal/proxy/session.go\<close> with \<open>Bridge.Run\<close> of
  \<open>bridge.go\<close>. Six goroutines take part: the caller of \<open>Run\<close>, the one that runs
  \<open>Bridge.Run\<close>, its two copy loops, the ping loop, and the timer callbacks. Each has a
  program counter; \<open>sess_prog\<close> has the steps the program takes by itself (a timer it has
  armed and a write deadline it has set expire by themselves), \<open>sess_env\<close> those that need
  the outside: a peer that sends or hangs up, a tick, the duration limit, a caller that
  cancels.
\<close>

definition closeGracePeriod :: Duration where
  "closeGracePeriod = 5 * Second"

text \<open>What ended a session: a result of the bridge (an error or none) or its context.\<close>

datatype run_result = BridgeResult "nat option" | CtxErr

subsection \<open>Before the goroutines start\<close>

datatype start_outcome = SetReadDeadlineFailed nat | DialFailed nat | Established

text \<open>
  The straight-line part of \<open>Run\<close>: the result if it returns early, and the metric calls made,
  those of its deferred functions included.
\<close>

definition Run_setup :: "start_outcome \<Rightarrow> run_result option \<times> metrics" where
  "Run_setup o' =
     (case o' of
        SetReadDeadlineFailed e \<Rightarrow> (Some (BridgeResult (Some e)), [ConnectionDuration_Observe])
      | DialFailed e \<Rightarrow>
          (Some (BridgeResult (Some e)),
           [ConnectionErrors_Inc tcp_dial_failed, ConnectionDuration_Observe])
      | Established \<Rightarrow> (None, []))"

subsection \<open>State\<close>

datatype main_pc =
    M_Select
  | M_CtxCloseWS | M_CtxCloseTCP          \<comment> \<open>the branch \<open>ctx.Done()\<close>\<close>
  | M_StopTimer run_result                \<comment> \<open>deferred: \<open>maxDurationTimer.Stop()\<close>\<close>
  | M_Cancel run_result | M_WaitPing run_result   \<comment> \<open>deferred: \<open>s.cancel(); <-pingDone\<close>\<close>
  | M_CloseTCP run_result                 \<comment> \<open>deferred: \<open>tcp.Close()\<close>\<close>
  | M_Observe run_result                  \<comment> \<open>deferred: the duration metric\<close>
  | M_Returned run_result

datatype bridge_pc = B_Wait | B_CloseWS "nat option" | B_CloseTCP "nat option" | B_Send "nat option" | B_Exited

datatype w2t_pc = W_Read | W_Write | W_Send "nat option" | W_Exited

datatype t2w_pc =
    R_Read | R_Lock | R_Write | R_Unlock "nat option" | R_Send "nat option" | R_Exited

datatype ping_pc = P_New | P_Select | P_Lock | P_Write | P_Unlock bool | P_Fail | P_Close | P_Exited | P_Panicked

datatype timer_pc = T_Armed | T_Stopped | T_Lock | T_Write | T_Unlock | T_Grace | T_Done

datatype grace_pc = G_Off | G_Armed | G_Done

datatype mu_owner = PingOwner | TimerOwner | CopyOwner

record sess =
  main :: main_pc
  brg :: bridge_pc
  w2t :: w2t_pc
  t2w :: t2w_pc
  ping :: ping_pc
  timer :: timer_pc
  grace :: grace_pc
  cancelled :: bool                   \<comment> \<open>the session's context is done\<close>
  ws_closed :: bool
  tcp_closed :: bool
  errChan :: "nat option list"        \<comment> \<open>of \<open>Bridge.Run\<close>, capacity two\<close>
  bridgeErr :: "nat option option"    \<comment> \<open>of \<open>Session.Run\<close>, capacity one\<close>
  pingDone :: bool
  writeMu :: "mu_owner option"
  slog :: metrics

definition sess_start :: sess where
  "sess_start =
     \<lparr>main = M_Select, brg = B_Wait, w2t = W_Read, t2w = R_Read, ping = P_New, timer = T_Armed,
      grace = G_Off, cancelled = False, ws_closed = False, tcp_closed = False, errChan = [],
      bridgeErr = None, pingDone = False, writeMu = None, slog = []\<rparr>"

subsection \<open>Steps\<close>

inductive sess_prog :: "Config \<Rightarrow> sess \<Rightarrow> sess \<Rightarrow> bool" for c :: Config where
  \<comment> \<open>\<open>Session.Run\<close>: the select and the deferred functions, last registered first\<close>
  main_bridge: "main s = M_Select \<Longrightarrow> bridgeErr s = Some r \<Longrightarrow>
    sess_prog c s (s\<lparr>main := M_StopTimer (BridgeResult r), bridgeErr := None\<rparr>)"
| main_ctx: "main s = M_Select \<Longrightarrow> cancelled s \<Longrightarrow> sess_prog c s (s\<lparr>main := M_CtxCloseWS\<rparr>)"
| main_ctx_ws: "main s = M_CtxCloseWS \<Longrightarrow> sess_prog c s (s\<lparr>main := M_CtxCloseTCP, ws_closed := True\<rparr>)"
| main_ctx_tcp: "main s = M_CtxCloseTCP \<Longrightarrow>
    sess_prog c s (s\<lparr>main := M_StopTimer CtxErr, tcp_closed := True\<rparr>)"
| main_stop_armed: "main s = M_StopTimer r \<Longrightarrow> timer s = T_Armed \<Longrightarrow>
    sess_prog c s (s\<lparr>main := M_Cancel r, timer := T_Stopped\<rparr>)"
| main_stop_fired: "main s = M_StopTimer r \<Longrightarrow> timer s \<noteq> T_Armed \<Longrightarrow>
    sess_prog c s (s\<lparr>main := M_Cancel r\<rparr>)"
| main_cancel: "main s = M_Cancel r \<Longrightarrow> sess_prog c s (s\<lparr>main := M_WaitPing r, cancelled := True\<rparr>)"
| main_wait: "main s = M_WaitPing r \<Longrightarrow> pingDone s \<Longrightarrow> sess_prog c s (s\<lparr>main := M_CloseTCP r\<rparr>)"
| main_close: "main s = M_CloseTCP r \<Longrightarrow> sess_prog c s (s\<lparr>main := M_Observe r, tcp_closed := True\<rparr>)"
| main_observe: "main s = M_Observe r \<Longrightarrow>
    sess_prog c s (s\<lparr>main := M_Returned r, slog := slog s @ [ConnectionDuration_Observe]\<rparr>)"
  \<comment> \<open>\<open>Bridge.Run\<close>\<close>
| brg_recv: "brg s = B_Wait \<Longrightarrow> errChan s = r # rs \<Longrightarrow>
    sess_prog c s (s\<lparr>brg := B_CloseWS r, errChan := rs\<rparr>)"
| brg_close_ws: "brg s = B_CloseWS r \<Longrightarrow> sess_prog c s (s\<lparr>brg := B_CloseTCP r, ws_closed := True\<rparr>)"
| brg_close_tcp: "brg s = B_CloseTCP r \<Longrightarrow> sess_prog c s (s\<lparr>brg := B_Send r, tcp_closed := True\<rparr>)"
| brg_send: "brg s = B_Send r \<Longrightarrow> bridgeErr s = None \<Longrightarrow>
    sess_prog c s (s\<lparr>brg := B_Exited, bridgeErr := Some r\<rparr>)"
  \<comment> \<open>the two copy goroutines report; closing a connection ends a read or write blocked on it\<close>
| w2t_send: "w2t s = W_Send r \<Longrightarrow> length (errChan s) < 2 \<Longrightarrow>
    sess_prog c s (s\<lparr>w2t := W_Exited, errChan := errChan s @ [r]\<rparr>)"
| w2t_read_closed: "w2t s = W_Read \<Longrightarrow> ws_closed s \<Longrightarrow> sess_prog c s (s\<lparr>w2t := W_Send (Some e)\<rparr>)"
| w2t_write_closed: "w2t s = W_Write \<Longrightarrow> tcp_closed s \<Longrightarrow> sess_prog c s (s\<lparr>w2t := W_Send (Some e)\<rparr>)"
| t2w_send: "t2w s = R_Send r \<Longrightarrow> length (errChan s) < 2 \<Longrightarrow>
    sess_prog c s (s\<lparr>t2w := R_Exited, errChan := errChan s @ [r]\<rparr>)"
| t2w_closed: "t2w s = R_Read \<Longrightarrow> tcp_closed s \<Longrightarrow> sess_prog c s (s\<lparr>t2w := R_Send (Some e)\<rparr>)"
| t2w_lock: "t2w s = R_Lock \<Longrightarrow> writeMu s = None \<Longrightarrow>
    sess_prog c s (s\<lparr>t2w := R_Write, writeMu := Some CopyOwner\<rparr>)"
| t2w_write: "t2w s = R_Write \<Longrightarrow> sess_prog c s (s\<lparr>t2w := R_Unlock r\<rparr>)"
| t2w_unlock_ok: "t2w s = R_Unlock None \<Longrightarrow> sess_prog c s (s\<lparr>t2w := R_Read, writeMu := None\<rparr>)"
| t2w_unlock_err: "t2w s = R_Unlock (Some e) \<Longrightarrow>
    sess_prog c s (s\<lparr>t2w := R_Send (Some e), writeMu := None\<rparr>)"
  \<comment> \<open>\<open>pingLoop\<close>\<close>
| ping_new: "ping s = P_New \<Longrightarrow> 0 < PingInterval c \<Longrightarrow> sess_prog c s (s\<lparr>ping := P_Select\<rparr>)"
| ping_panic: "ping s = P_New \<Longrightarrow> PingInterval c \<le> 0 \<Longrightarrow> sess_prog c s (s\<lparr>ping := P_Panicked\<rparr>)"
| ping_ctx: "ping s = P_Select \<Longrightarrow> cancelled s \<Longrightarrow> sess_prog c s (s\<lparr>ping := P_Close\<rparr>)"
| ping_lock: "ping s = P_Lock \<Longrightarrow> writeMu s = None \<Longrightarrow>
    sess_prog c s (s\<lparr>ping := P_Write, writeMu := Some PingOwner\<rparr>)"
| ping_write: "ping s = P_Write \<Longrightarrow> sess_prog c s (s\<lparr>ping := P_Unlock failed\<rparr>)"
| ping_unlock_ok: "ping s = P_Unlock False \<Longrightarrow> sess_prog c s (s\<lparr>ping := P_Select, writeMu := None\<rparr>)"
| ping_unlock_err: "ping s = P_Unlock True \<Longrightarrow> sess_prog c s (s\<lparr>ping := P_Fail, writeMu := None\<rparr>)"
| ping_fail: "ping s = P_Fail \<Longrightarrow>
    sess_prog c s (s\<lparr>ping := P_Close, cancelled := True,
                     slog := slog s @ [ConnectionErrors_Inc ping_failed]\<rparr>)"
| ping_close: "ping s = P_Close \<Longrightarrow> sess_prog c s (s\<lparr>ping := P_Exited, pingDone := True\<rparr>)"
  \<comment> \<open>the callback of \<open>maxDurationTimer\<close>, and the grace timer it arms\<close>
| timer_lock: "timer s = T_Lock \<Longrightarrow> writeMu s = None \<Longrightarrow>
    sess_prog c s (s\<lparr>timer := T_Write, writeMu := Some TimerOwner\<rparr>)"
| timer_write: "timer s = T_Write \<Longrightarrow> sess_prog c s (s\<lparr>timer := T_Unlock\<rparr>)"
| timer_unlock: "timer s = T_Unlock \<Longrightarrow> sess_prog c s (s\<lparr>timer := T_Grace, writeMu := None\<rparr>)"
| timer_grace: "timer s = T_Grace \<Longrightarrow> sess_prog c s (s\<lparr>timer := T_Done, grace := G_Armed\<rparr>)"
| grace_fire: "grace s = G_Armed \<Longrightarrow> sess_prog c s (s\<lparr>grace := G_Done, cancelled := True\<rparr>)"

inductive sess_env :: "sess \<Rightarrow> sess \<Rightarrow> bool" where
  parent_cancel: "sess_env s (s\<lparr>cancelled := True\<rparr>)"
| ws_ends: "w2t s = W_Read \<Longrightarrow> sess_env s (s\<lparr>w2t := W_Send r\<rparr>)"
| ws_data: "w2t s = W_Read \<Longrightarrow> sess_env s (s\<lparr>w2t := W_Write\<rparr>)"
| tcp_takes: "w2t s = W_Write \<Longrightarrow> sess_env s (s\<lparr>w2t := W_Read\<rparr>)"
| tcp_refuses: "w2t s = W_Write \<Longrightarrow> sess_env s (s\<lparr>w2t := W_Send (Some e)\<rparr>)"
| tcp_ends: "t2w s = R_Read \<Longrightarrow> sess_env s (s\<lparr>t2w := R_Send r\<rparr>)"
| tcp_data: "t2w s = R_Read \<Longrightarrow> sess_env s (s\<lparr>t2w := R_Lock\<rparr>)"
| tick: "ping s = P_Select \<Longrightarrow> sess_env s (s\<lparr>ping := P_Lock\<rparr>)"
| max_duration_fires: "timer s = T_Armed \<Longrightarrow>
    sess_env s (s\<lparr>timer := T_Lock, slog := slog s @ [ConnectionErrors_Inc max_duration]\<rparr>)"

text \<open>A panic of the ping loop is not recovered: it ends the process, and no step follows it.\<close>

definition sess_step :: "Config \<Rightarrow> sess \<Rightarrow> sess \<Rightarrow> bool" where
  "sess_step c s t \<longleftrightarrow> ping s \<noteq> P_Panicked \<and> (sess_prog c s t \<or> sess_env s t)"

definition sess_init :: "sess \<Rightarrow> bool" where
  "sess_init s \<longleftrightarrow> s = sess_start"

subsection \<open>Invariant\<close>

text \<open>The program points inside a write on the WebSocket.\<close>

fun ping_writing :: "ping_pc \<Rightarrow> bool" where
  "ping_writing P_Write = True"
| "ping_writing (P_Unlock b) = True"
| "ping_writing _ = False"

fun timer_writing :: "timer_pc \<Rightarrow> bool" where
  "timer_writing T_Write = True"
| "timer_writing T_Unlock = True"
| "timer_writing _ = False"

fun copy_writing :: "t2w_pc \<Rightarrow> bool" where
  "copy_writing R_Write = True"
| "copy_writing (R_Unlock r) = True"
| "copy_writing _ = False"

definition mu_inv :: "sess \<Rightarrow> bool" where
  "mu_inv s \<longleftrightarrow>
     (writeMu s = Some PingOwner \<longleftrightarrow> ping_writing (ping s)) \<and>
     (writeMu s = Some TimerOwner \<longleftrightarrow> timer_writing (timer s)) \<and>
     (writeMu s = Some CopyOwner \<longleftrightarrow> copy_writing (t2w s))"

text \<open>How far the caller has come with its deferred functions.\<close>

fun main_stage :: "main_pc \<Rightarrow> nat" where
  "main_stage M_Select = 0"
| "main_stage M_CtxCloseWS = 1"
| "main_stage M_CtxCloseTCP = 2"
| "main_stage (M_StopTimer r) = 3"
| "main_stage (M_Cancel r) = 4"
| "main_stage (M_WaitPing r) = 5"
| "main_stage (M_CloseTCP r) = 6"
| "main_stage (M_Observe r) = 7"
| "main_stage (M_Returned r) = 8"

definition main_inv :: "sess \<Rightarrow> bool" where
  "main_inv s \<longleftrightarrow>
     (pingDone s \<longleftrightarrow> ping s = P_Exited) \<and>
     (main_stage (main s) \<in> {1, 2} \<or> 5 \<le> main_stage (main s) \<longrightarrow> cancelled s) \<and>
     (6 \<le> main_stage (main s) \<longrightarrow> pingDone s) \<and>
     (7 \<le> main_stage (main s) \<longrightarrow> tcp_closed s) \<and>
     count_list (slog s) ConnectionDuration_Observe = (if main_stage (main s) = 8 then 1 else 0)"

definition copies_done :: "sess \<Rightarrow> nat" where
  "copies_done s = of_bool (w2t s = W_Exited) + of_bool (t2w s = R_Exited)"

definition chan_inv :: "sess \<Rightarrow> bool" where
  "chan_inv s \<longleftrightarrow>
     (bridgeErr s \<noteq> None \<longrightarrow> brg s = B_Exited) \<and>
     (main s = M_Select \<and> brg s = B_Exited \<longrightarrow> bridgeErr s \<noteq> None) \<and>
     length (errChan s) + of_bool (brg s \<noteq> B_Wait) = copies_done s"

definition timer_inv :: "sess \<Rightarrow> bool" where
  "timer_inv s \<longleftrightarrow> (timer s = T_Done \<longrightarrow> grace s \<noteq> G_Off) \<and> (grace s = G_Done \<longrightarrow> cancelled s)"

definition sess_inv :: "sess \<Rightarrow> bool" where
  "sess_inv s \<longleftrightarrow> mu_inv s \<and> main_inv s \<and> chan_inv s \<and> timer_inv s"

section \<open>Lemmas\<close>

lemma sess_inv_start: "sess_inv sess_start"
  by (simp add: sess_inv_def mu_inv_def main_inv_def chan_inv_def timer_inv_def sess_start_def
      copies_done_def)

lemma mu_inv_prog: "sess_prog c s t \<Longrightarrow> mu_inv s \<Longrightarrow> mu_inv t"
  by (induction rule: sess_prog.induct) (auto simp: mu_inv_def)

lemma mu_inv_env: "sess_env s t \<Longrightarrow> mu_inv s \<Longrightarrow> mu_inv t"
  by (induction rule: sess_env.induct) (auto simp: mu_inv_def)

lemma main_inv_prog: "sess_prog c s t \<Longrightarrow> main_inv s \<Longrightarrow> main_inv t"
  by (induction rule: sess_prog.induct) (auto simp: main_inv_def)

lemma main_inv_env: "sess_env s t \<Longrightarrow> main_inv s \<Longrightarrow> main_inv t"
  by (induction rule: sess_env.induct) (auto simp: main_inv_def)

lemma chan_inv_prog: "sess_prog c s t \<Longrightarrow> chan_inv s \<Longrightarrow> chan_inv t"
  by (induction rule: sess_prog.induct) (auto simp: chan_inv_def copies_done_def of_bool_def split: if_splits)

lemma chan_inv_env: "sess_env s t \<Longrightarrow> chan_inv s \<Longrightarrow> chan_inv t"
  by (induction rule: sess_env.induct) (auto simp: chan_inv_def copies_done_def of_bool_def split: if_splits)

lemma timer_inv_prog: "sess_prog c s t \<Longrightarrow> timer_inv s \<Longrightarrow> timer_inv t"
  by (induction rule: sess_prog.induct) (auto simp: timer_inv_def)

lemma timer_inv_env: "sess_env s t \<Longrightarrow> timer_inv s \<Longrightarrow> timer_inv t"
  by (induction rule: sess_env.induct) (auto simp: timer_inv_def)

lemmas sess_inv_prog = mu_inv_prog main_inv_prog chan_inv_prog timer_inv_prog
lemmas sess_inv_env = mu_inv_env main_inv_env chan_inv_env timer_inv_env

lemma sess_inv_step: "sess_step c s t \<Longrightarrow> sess_inv s \<Longrightarrow> sess_inv t"
  by (auto simp: sess_step_def sess_inv_def intro: sess_inv_prog sess_inv_env)

interpretation sess_sys: invariant_system sess_init "sess_step c" sess_inv for c
  by unfold_locales (simp_all add: sess_init_def sess_inv_start sess_inv_step)

text \<open>With a positive ping interval no ticker panics.\<close>

lemma no_panic_step: "sess_step c s t \<Longrightarrow> 0 < PingInterval c \<Longrightarrow> ping s \<noteq> P_Panicked \<Longrightarrow> ping t \<noteq> P_Panicked"
  by (auto simp: sess_step_def elim!: sess_prog.cases sess_env.cases)

lemma no_panic_reach:
  assumes "reach sess_init (sess_step c) s" and "0 < PingInterval c"
  shows "ping s \<noteq> P_Panicked"
  using assms
  by (induction rule: reach.induct) (auto simp: sess_init_def sess_start_def dest: no_panic_step)

subsection \<open>A session that has begun to end does end\<close>

text \<open>
  Something has happened that must end the session: its context is done, a copy loop has
  ended, the duration limit has fired, or the caller is already on its way out.
\<close>

fun copy_over :: "t2w_pc \<Rightarrow> bool" where
  "copy_over (R_Send r) = True"
| "copy_over R_Exited = True"
| "copy_over _ = False"

definition ending :: "sess \<Rightarrow> bool" where
  "ending s \<longleftrightarrow> cancelled s \<or> 1 \<le> main_stage (main s) \<or> w2t s \<notin> {W_Read, W_Write} \<or> copy_over (t2w s)
     \<or> timer s \<notin> {T_Armed, T_Stopped}"

lemma ending_prog: "sess_prog c s t \<Longrightarrow> ending s \<Longrightarrow> ending t"
  by (induction rule: sess_prog.induct) (auto simp: ending_def)

text \<open>A bound on the steps still to take.\<close>

fun ping_weight :: "ping_pc \<Rightarrow> nat" where
  "ping_weight P_New = 3"
| "ping_weight P_Select = 2"
| "ping_weight P_Lock = 6"
| "ping_weight P_Write = 5"
| "ping_weight (P_Unlock b) = 4"
| "ping_weight P_Fail = 3"
| "ping_weight P_Close = 1"
| "ping_weight P_Exited = 0"
| "ping_weight P_Panicked = 0"

fun timer_weight :: "timer_pc \<Rightarrow> nat" where
  "timer_weight T_Lock = 5"
| "timer_weight T_Write = 4"
| "timer_weight T_Unlock = 3"
| "timer_weight T_Grace = 2"
| "timer_weight _ = 0"

fun t2w_weight :: "t2w_pc \<Rightarrow> nat" where
  "t2w_weight R_Lock = 5"
| "t2w_weight R_Write = 4"
| "t2w_weight (R_Unlock r) = 3"
| "t2w_weight R_Read = 2"
| "t2w_weight (R_Send r) = 1"
| "t2w_weight R_Exited = 0"

fun w2t_weight :: "w2t_pc \<Rightarrow> nat" where
  "w2t_weight (W_Send r) = 1"
| "w2t_weight W_Exited = 0"
| "w2t_weight _ = 2"

fun brg_weight :: "bridge_pc \<Rightarrow> nat" where
  "brg_weight B_Wait = 4"
| "brg_weight (B_CloseWS r) = 3"
| "brg_weight (B_CloseTCP r) = 2"
| "brg_weight (B_Send r) = 1"
| "brg_weight B_Exited = 0"

definition todo :: "sess \<Rightarrow> nat" where
  "todo s = (8 - main_stage (main s)) + ping_weight (ping s) + timer_weight (timer s)
     + t2w_weight (t2w s) + w2t_weight (w2t s) + brg_weight (brg s) + of_bool (grace s = G_Armed)"

lemma todo_prog: "sess_prog c s t \<Longrightarrow> todo t < todo s"
  by (induction rule: sess_prog.induct) (auto simp: todo_def)

lemma todo_bound: "todo s \<le> 31"
proof -
  have "ping_weight (ping s) \<le> 6" by (cases "ping s") simp_all
  moreover have "timer_weight (timer s) \<le> 5" by (cases "timer s") simp_all
  moreover have "t2w_weight (t2w s) \<le> 5" by (cases "t2w s") simp_all
  moreover have "w2t_weight (w2t s) \<le> 2" by (cases "w2t s") simp_all
  moreover have "brg_weight (brg s) \<le> 4" by (cases "brg s") simp_all
  moreover have "of_bool (grace s = G_Armed) \<le> (1 :: nat)" by simp
  ultimately show ?thesis unfolding todo_def by linarith
qed

lemma prog_steps_todo: "(sess_prog c ^^ n) s t \<Longrightarrow> n + todo t \<le> todo s"
  by (induction n arbitrary: t) (auto dest!: todo_prog, fastforce)

definition can_advance :: "Config \<Rightarrow> sess \<Rightarrow> bool" where
  "can_advance c s \<longleftrightarrow> (\<exists>t. sess_prog c s t)"

lemma advanceI: "sess_prog c s t \<Longrightarrow> can_advance c s"
  by (auto simp: can_advance_def)

text \<open>Whoever holds the write mutex can go on.\<close>

lemma owner_advances:
  assumes "mu_inv s" and "writeMu s = Some ow"
  shows "can_advance c s"
proof (cases ow)
  case PingOwner
  with assms have "ping_writing (ping s)" by (simp add: mu_inv_def)
  then consider "ping s = P_Write" | "ping s = P_Unlock True" | "ping s = P_Unlock False"
    by (cases "ping s") auto
  then show ?thesis
    by cases (rule advanceI, erule sess_prog.intros)+
next
  case TimerOwner
  with assms have "timer_writing (timer s)" by (simp add: mu_inv_def)
  then consider "timer s = T_Write" | "timer s = T_Unlock" by (cases "timer s") auto
  then show ?thesis
    by cases (rule advanceI, erule sess_prog.intros)+
next
  case CopyOwner
  with assms have "copy_writing (t2w s)" by (simp add: mu_inv_def)
  then consider "t2w s = R_Write" | r where "t2w s = R_Unlock r" by (cases "t2w s") auto
  then show ?thesis
  proof cases
    case 1
    then show ?thesis by (intro advanceI [OF sess_prog.t2w_write]) simp_all
  next
    case (2 r)
    then show ?thesis
      by (cases r) (auto intro: advanceI [OF sess_prog.t2w_unlock_ok]
          advanceI [OF sess_prog.t2w_unlock_err])
  qed
qed

lemma ping_advances:
  assumes "mu_inv s" and "cancelled s" and "0 < PingInterval c"
    and "ping s \<noteq> P_Exited" and "ping s \<noteq> P_Panicked"
  shows "can_advance c s"
proof (cases "writeMu s")
  case (Some ow)
  with assms(1) show ?thesis by (rule owner_advances)
next
  case None
  with assms(1) have "\<not> ping_writing (ping s)" by (simp add: mu_inv_def)
  with assms(4,5) consider "ping s = P_New" | "ping s = P_Select" | "ping s = P_Lock"
    | "ping s = P_Fail" | "ping s = P_Close"
    by (cases "ping s") auto
  then show ?thesis
  proof cases
    case 1
    with assms(3) show ?thesis by (intro advanceI [OF sess_prog.ping_new]) simp_all
  next
    case 2
    with assms(2) show ?thesis by (intro advanceI [OF sess_prog.ping_ctx]) simp_all
  next
    case 3
    with None show ?thesis by (intro advanceI [OF sess_prog.ping_lock]) simp_all
  next
    case 4
    then show ?thesis by (intro advanceI [OF sess_prog.ping_fail]) simp_all
  next
    case 5
    then show ?thesis by (intro advanceI [OF sess_prog.ping_close]) simp_all
  qed
qed

lemma timer_advances:
  assumes "mu_inv s" and "timer_inv s" and "timer s \<notin> {T_Armed, T_Stopped}" and "\<not> cancelled s"
  shows "can_advance c s"
proof (cases "writeMu s")
  case (Some ow)
  with assms(1) show ?thesis by (rule owner_advances)
next
  case None
  with assms(1) have "\<not> timer_writing (timer s)" by (simp add: mu_inv_def)
  with assms(3) consider "timer s = T_Lock" | "timer s = T_Grace" | "timer s = T_Done"
    by (cases "timer s") auto
  then show ?thesis
  proof cases
    case 1
    with None show ?thesis by (intro advanceI [OF sess_prog.timer_lock]) simp_all
  next
    case 2
    then show ?thesis by (intro advanceI [OF sess_prog.timer_grace]) simp_all
  next
    case 3
    with assms(2,4) have "grace s = G_Armed" by (cases "grace s") (auto simp: timer_inv_def)
    then show ?thesis by (intro advanceI [OF sess_prog.grace_fire]) simp_all
  qed
qed

text \<open>Once a copy loop has reported, \<open>Bridge.Run\<close> goes on until it has reported in turn.\<close>

lemma bridge_advances:
  assumes "chan_inv s" and "main s = M_Select" and "bridgeErr s = None" and "0 < copies_done s"
  shows "can_advance c s"
proof (cases "brg s")
  case B_Wait
  with assms(1,4) obtain r rs where "errChan s = r # rs"
    by (cases "errChan s") (auto simp: chan_inv_def)
  with B_Wait show ?thesis by (intro advanceI [OF sess_prog.brg_recv]) simp_all
next
  case (B_CloseWS r)
  then show ?thesis by (intro advanceI [OF sess_prog.brg_close_ws]) simp_all
next
  case (B_CloseTCP r)
  then show ?thesis by (intro advanceI [OF sess_prog.brg_close_tcp]) simp_all
next
  case (B_Send r)
  with assms(3) show ?thesis by (intro advanceI [OF sess_prog.brg_send]) simp_all
next
  case B_Exited
  with assms(1-3) show ?thesis by (simp add: chan_inv_def)
qed

lemma copy_advances:
  assumes "chan_inv s" and "main s = M_Select" and "bridgeErr s = None"
    and "w2t s \<notin> {W_Read, W_Write} \<or> copy_over (t2w s)"
  shows "can_advance c s"
proof (cases "0 < copies_done s")
  case True
  with assms(1-3) show ?thesis by (rule bridge_advances)
next
  case False
  with assms(1) have room: "length (errChan s) < 2" by (simp add: chan_inv_def)
  from False assms(4) consider r where "w2t s = W_Send r" | r where "t2w s = R_Send r"
    by (cases "w2t s"; cases "t2w s") (auto simp: copies_done_def)
  then show ?thesis
  proof cases
    case 1
    with room show ?thesis by (intro advanceI [OF sess_prog.w2t_send]) simp_all
  next
    case 2
    with room show ?thesis by (intro advanceI [OF sess_prog.t2w_send]) simp_all
  qed
qed

lemma select_advances:
  assumes "sess_inv s" and "ending s" and "main s = M_Select"
  shows "can_advance c s"
proof -
  consider r where "bridgeErr s = Some r" | "cancelled s"
    | "bridgeErr s = None" "\<not> cancelled s" by (cases "bridgeErr s") auto
  then show ?thesis
  proof cases
    case 1
    with assms(3) show ?thesis by (intro advanceI [OF sess_prog.main_bridge]) simp_all
  next
    case 2
    with assms(3) show ?thesis by (intro advanceI [OF sess_prog.main_ctx]) simp_all
  next
    case 3
    with assms have "timer s \<notin> {T_Armed, T_Stopped} \<or> w2t s \<notin> {W_Read, W_Write} \<or> copy_over (t2w s)"
      by (auto simp: ending_def)
    with 3 assms show ?thesis
      by (meson copy_advances timer_advances sess_inv_def)
  qed
qed

lemma main_advances:
  assumes "sess_inv s" and "ending s" and "0 < PingInterval c" and "ping s \<noteq> P_Panicked"
    and "main_stage (main s) < 8"
  shows "can_advance c s"
proof (cases "main s")
  case M_Select
  with assms show ?thesis by (simp add: select_advances)
next
  case M_CtxCloseWS
  then show ?thesis by (intro advanceI [OF sess_prog.main_ctx_ws]) simp_all
next
  case M_CtxCloseTCP
  then show ?thesis by (intro advanceI [OF sess_prog.main_ctx_tcp]) simp_all
next
  case (M_StopTimer r)
  then show ?thesis
    by (cases "timer s = T_Armed") (auto intro: advanceI [OF sess_prog.main_stop_armed]
        advanceI [OF sess_prog.main_stop_fired])
next
  case (M_Cancel r)
  then show ?thesis by (intro advanceI [OF sess_prog.main_cancel]) simp_all
next
  case (M_WaitPing r)
  show ?thesis
  proof (cases "pingDone s")
    case True
    with M_WaitPing show ?thesis by (intro advanceI [OF sess_prog.main_wait]) simp_all
  next
    case False
    with M_WaitPing assms show ?thesis
      by (intro ping_advances) (auto simp: sess_inv_def main_inv_def)
  qed
next
  case (M_CloseTCP r)
  then show ?thesis by (intro advanceI [OF sess_prog.main_close]) simp_all
next
  case (M_Observe r)
  then show ?thesis by (intro advanceI [OF sess_prog.main_observe]) simp_all
next
  case (M_Returned r)
  with assms show ?thesis by simp
qed

lemma ending_steps:
  "(sess_prog c)\<^sup>*\<^sup>* s t \<Longrightarrow> sess_inv s \<and> ending s \<and> ping s \<noteq> P_Panicked \<Longrightarrow> 0 < PingInterval c \<Longrightarrow>
   sess_inv t \<and> ending t \<and> ping t \<noteq> P_Panicked"
proof (induction rule: rtranclp_induct)
  case (step t u)
  then have "sess_step c t u" by (simp add: sess_step_def)
  with step show ?case by (auto intro: sess_inv_step ending_prog dest: no_panic_step)
qed simp

lemma stuck_returned:
  assumes "sess_inv t" and "ending t" and "0 < PingInterval c" and "ping t \<noteq> P_Panicked"
    and "\<nexists>u. sess_prog c t u"
  shows "\<exists>r. main t = M_Returned r"
proof (rule ccontr)
  assume "\<nexists>r. main t = M_Returned r"
  then have "main_stage (main t) < 8" by (cases "main t") auto
  with assms main_advances [of t c] show False by (auto simp: can_advance_def)
qed

lemma prog_maximal: "\<exists>n t. (sess_prog c ^^ n) s t \<and> (\<nexists>u. sess_prog c t u)"
proof (induction "todo s" arbitrary: s rule: less_induct)
  case less
  show ?case
  proof (cases "\<exists>u. sess_prog c s u")
    case True
    then obtain u where "sess_prog c s u" by blast
    with less.hyps [OF todo_prog [OF this]] show ?thesis by (meson relpowp_Suc_I2)
  next
    case False
    then show ?thesis by (metis relpowp_0_I)
  qed
qed

lemma reach_start: "reach sess_init (sess_step c) sess_start"
  by (simp add: reach_init sess_init_def)

lemma reach_cancelled: "reach sess_init (sess_step c) (sess_start\<lparr>cancelled := True\<rparr>)"
  by (rule reach_step [OF reach_start]) (simp add: sess_step_def sess_env.parent_cancel, simp add: sess_start_def)

lemma reach_prog:
  "(sess_prog c)\<^sup>*\<^sup>* s t \<Longrightarrow> 0 < PingInterval c \<Longrightarrow> reach sess_init (sess_step c) s \<Longrightarrow>
   reach sess_init (sess_step c) t"
proof (induction rule: rtranclp_induct)
  case (step t u)
  then have "reach sess_init (sess_step c) t" by blast
  moreover from this step have "sess_step c t u" by (simp add: sess_step_def no_panic_reach)
  ultimately show ?case by (rule reach_step)
qed

lemma returned_reachable:
  assumes "0 < PingInterval c"
  shows "\<exists>s r. reach sess_init (sess_step c) s \<and> main s = M_Returned r"
proof -
  obtain n t where run: "(sess_prog c ^^ n) (sess_start\<lparr>cancelled := True\<rparr>) t" "\<nexists>u. sess_prog c t u"
    using prog_maximal by blast
  from run(1) have steps: "(sess_prog c)\<^sup>*\<^sup>* (sess_start\<lparr>cancelled := True\<rparr>) t"
    by (rule relpowp_imp_rtranclp)
  have "ending (sess_start\<lparr>cancelled := True\<rparr>)" by (simp add: ending_def)
  then have "sess_inv t \<and> ending t \<and> ping t \<noteq> P_Panicked"
    using sess_sys.reach_inv [OF reach_cancelled [of c]] assms
    by (intro ending_steps [OF steps] conjI) (auto simp: sess_start_def)
  with stuck_returned [of t c] run(2) assms reach_prog [OF steps assms reach_cancelled]
  show ?thesis by blast
qed

lemma writers_exclusive: "mu_inv s \<Longrightarrow>
  of_bool (ping_writing (ping s)) + of_bool (timer_writing (timer s)) + of_bool (copy_writing (t2w s))
    = (of_bool (writeMu s \<noteq> None) :: nat)"
proof (cases "writeMu s")
  case (Some ow)
  assume "mu_inv s"
  with Some show ?thesis by (cases ow) (auto simp: mu_inv_def)
qed (auto simp: mu_inv_def)

section \<open>Properties\<close>



text \<open>
  C13: the connection's concurrency rule holds: at every moment at most one of the ping loop,
  the duration limit's callback and the copy loop is inside a write on the WebSocket, and
  one of them is exactly when \<open>writeMu\<close> is held.
\<close>

theorem single_writer:
  assumes "reach sess_init (sess_step c) s"
  shows "of_bool (ping_writing (ping s)) + of_bool (timer_writing (timer s))
      + of_bool (copy_writing (t2w s)) = (of_bool (writeMu s \<noteq> None) :: nat)"
  using sess_sys.reach_inv [OF assms] by (simp add: sess_inv_def writers_exclusive)

theorem single_writer_witness:
  "\<exists>s. reach sess_init (sess_step (readConfig Map.empty)) s \<and> copy_writing (t2w s) \<and> \<not> ping_writing (ping s)"
proof -
  let ?c = "readConfig Map.empty" and ?s = "sess_start\<lparr>t2w := R_Lock\<rparr>"
  have "reach sess_init (sess_step ?c) ?s"
    by (rule reach_step [OF reach_start], unfold sess_step_def)
      (intro conjI disjI2 sess_env.tcp_data, simp_all add: sess_start_def)
  moreover have "sess_step ?c ?s (?s\<lparr>t2w := R_Write, writeMu := Some CopyOwner\<rparr>)"
    unfolding sess_step_def by (intro conjI disjI1 sess_prog.t2w_lock) (simp_all add: sess_start_def)
  ultimately have r: "reach sess_init (sess_step ?c) (?s\<lparr>t2w := R_Write, writeMu := Some CopyOwner\<rparr>)"
    by (rule reach_step)
  show ?thesis by (rule exI, rule conjI [OF r]) (use single_writer [OF r] in simp)
qed

text \<open>
  C1: teardown never deadlocks. Take any reachable state in which the session has begun to
  end (its context is done, a copy loop has ended, the duration limit has fired, or \<open>Run\<close> is
  executing its deferred functions) and let the program run on, in any interleaving, with no
  help from either peer, the ticker or the caller: it takes at most 31 more steps, and where
  it can take no further step, \<open>Run\<close> has returned. The ping interval is positive.
\<close>

theorem Run_terminates:
  assumes "reach sess_init (sess_step c) s" and "0 < PingInterval c" and "ending s"
    and "(sess_prog c ^^ n) s t"
  shows "n \<le> 31 \<and> ((\<nexists>u. sess_prog c t u) \<longrightarrow> (\<exists>r. main t = M_Returned r))"
proof -
  from assms(4) have "(sess_prog c)\<^sup>*\<^sup>* s t" by (rule relpowp_imp_rtranclp)
  then have "sess_inv t \<and> ending t \<and> ping t \<noteq> P_Panicked"
    by (rule ending_steps)
      (use sess_sys.reach_inv [OF assms(1)] no_panic_reach [OF assms(1,2)] assms(2,3) in auto)
  with assms(2) have "(\<nexists>u. sess_prog c t u) \<longrightarrow> (\<exists>r. main t = M_Returned r)"
    using stuck_returned by blast
  moreover from prog_steps_todo [OF assms(4)] todo_bound [of s] have "n \<le> 31" by linarith
  ultimately show ?thesis by blast
qed

theorem Run_terminates_witness:
  "\<exists>n t r. (sess_prog (readConfig Map.empty) ^^ n) (sess_start\<lparr>cancelled := True\<rparr>) t
     \<and> n \<le> 31 \<and> main t = M_Returned r"
proof -
  let ?c = "readConfig Map.empty" and ?s = "sess_start\<lparr>cancelled := True\<rparr>"
  obtain n t where run: "(sess_prog ?c ^^ n) ?s t" "\<nexists>u. sess_prog ?c t u"
    using prog_maximal by blast
  have "0 < PingInterval ?c" by code_simp
  moreover have "ending ?s" by (simp add: ending_def)
  ultimately show ?thesis using Run_terminates [OF reach_cancelled _ _ run(1)] run by blast
qed

text \<open>
  C40: The ticker of \<open>pingLoop\<close> can panic, which ends the whole sidecar, exactly when the
  configured ping interval is not positive; and the configuration check lets such an interval
  through: with \<open>PING_INTERVAL=0s\<close> the configuration loads and the first session panics.
\<close>

theorem PingInterval_panics:
  "((\<exists>s. reach sess_init (sess_step c) s \<and> ping s = P_Panicked) \<longleftrightarrow> PingInterval c \<le> 0)
   \<and> (case LoadConfig [''PING_INTERVAL'' \<mapsto> ''0s''] of Ok d \<Rightarrow> PingInterval d = 0 | Err e \<Rightarrow> False)"
proof
  have "reach sess_init (sess_step c) (sess_start\<lparr>ping := P_Panicked\<rparr>)" if "PingInterval c \<le> 0"
  proof (rule reach_step [OF reach_start])
    have "ping sess_start = P_New" by (simp add: sess_start_def)
    with that show "sess_step c sess_start (sess_start\<lparr>ping := P_Panicked\<rparr>)"
      by (simp add: sess_step_def sess_prog.ping_panic)
  qed
  moreover have "ping (sess_start\<lparr>ping := P_Panicked\<rparr>) = P_Panicked" by simp
  ultimately show "(\<exists>s. reach sess_init (sess_step c) s \<and> ping s = P_Panicked) \<longleftrightarrow> PingInterval c \<le> 0"
    using no_panic_reach [of c] by (meson not_less)
  show "case LoadConfig [''PING_INTERVAL'' \<mapsto> ''0s''] of Ok d \<Rightarrow> PingInterval d = 0 | Err e \<Rightarrow> False"
    by code_simp
qed

end
