(* ===== verification/Go_Fmt.thy ===== *)
theory Go_Fmt
  imports Go_Base
begin

text \<open>
  Formatting: \<open>strconv.Quote\<close>, which is the verb \<open>%q\<close> of package \<open>fmt\<close>, and
  \<open>time.Time.Format\<close> with the layout \<open>time.RFC3339\<close> of a time in UTC. The programs put the
  results into JSON; the lemmas show for which texts a quoted string is a JSON string.
\<close>

definition byte :: "char \<Rightarrow> nat" where
  "byte c = of_char c"

subsection \<open>UTF-8 decoding\<close>

text \<open>
  \<open>utf8.DecodeRune\<close>: the rune a nonempty string starts with and the number of its bytes, or
  \<open>None\<close> where the first byte does not start a valid encoding.
\<close>

definition cont :: "nat \<Rightarrow> bool" where
  "cont b \<longleftrightarrow> 0x80 \<le> b \<and> b \<le> 0xBF"

definition second_ok :: "nat \<Rightarrow> nat \<Rightarrow> bool" where
  "second_ok b0 b1 \<longleftrightarrow>
     cont b1 \<and> (b0 = 0xE0 \<longrightarrow> 0xA0 \<le> b1) \<and> (b0 = 0xED \<longrightarrow> b1 \<le> 0x9F)
     \<and> (b0 = 0xF0 \<longrightarrow> 0x90 \<le> b1) \<and> (b0 = 0xF4 \<longrightarrow> b1 \<le> 0x8F)"

fun DecodeRune :: "nat list \<Rightarrow> (nat \<times> nat) option" where
  "DecodeRune [] = None"
| "DecodeRune (b0 # bs) =
     (if b0 < 0x80 then Some (b0, 1)
      else if 0xC2 \<le> b0 \<and> b0 \<le> 0xDF then
        (case bs of
           b1 # _ \<Rightarrow> if cont b1 then Some ((b0 - 0xC0) * 64 + (b1 - 0x80), 2) else None
         | _ \<Rightarrow> None)
      else if 0xE0 \<le> b0 \<and> b0 \<le> 0xEF then
        (case bs of
           b1 # b2 # _ \<Rightarrow>
             if second_ok b0 b1 \<and> cont b2
             then Some (((b0 - 0xE0) * 64 + (b1 - 0x80)) * 64 + (b2 - 0x80), 3) else None
         | _ \<Rightarrow> None)
      else if 0xF0 \<le> b0 \<and> b0 \<le> 0xF4 then
        (case bs of
           b1 # b2 # b3 # _ \<Rightarrow>
             if second_ok b0 b1 \<and> cont b2 \<and> cont b3
             then Some ((((b0 - 0xF0) * 64 + (b1 - 0x80)) * 64 + (b2 - 0x80)) * 64 + (b3 - 0x80), 4)
             else None
         | _ \<Rightarrow> None)
      else None)"

lemma DecodeRune_width: "DecodeRune bs = Some (r, w) \<Longrightarrow> 0 < w"
  by (cases bs) (auto split: if_splits list.splits)

subsection \<open>Quoting\<close>

definition hex_digit :: "nat \<Rightarrow> char" where
  "hex_digit d = (if d < 10 then char_of (48 + d) else char_of (87 + d))"

fun hex :: "nat \<Rightarrow> nat \<Rightarrow> string" where
  "hex 0 n = []"
| "hex (Suc k) n = hex k (n div 16) @ [hex_digit (n mod 16)]"

text \<open>
  \<open>strconv.IsPrint\<close> holds of an ASCII rune from space to tilde; above ASCII it is a table of
  the Unicode standard, here the argument \<open>table\<close>.
\<close>

definition IsPrint :: "(nat \<Rightarrow> bool) \<Rightarrow> nat \<Rightarrow> bool" where
  "IsPrint table r \<longleftrightarrow> (if r < 0x80 then 0x20 \<le> r \<and> r < 0x7F else table r)"

definition escapes :: "(nat \<times> char) list" where
  "escapes = [(7, CHR ''a''), (8, CHR ''b''), (12, CHR ''f''), (10, CHR 0x6E), (13, CHR ''r''),
              (9, CHR ''t''), (11, CHR ''v'')]"

definition appendEscapedRune :: "(nat \<Rightarrow> bool) \<Rightarrow> nat \<Rightarrow> string \<Rightarrow> string" where
  "appendEscapedRune table r enc =
     (if r = 0x22 \<or> r = 0x5C then [CHR 0x5C, char_of r]
      else if IsPrint table r then enc
      else
        case map_of escapes r of
          Some c \<Rightarrow> [CHR 0x5C, c]
        | None \<Rightarrow>
            if r < 0x20 \<or> r = 0x7F then [CHR 0x5C, CHR ''x''] @ hex 2 r
            else if r < 0x10000 then [CHR 0x5C, CHR ''u''] @ hex 4 r
            else [CHR 0x5C, CHR ''U''] @ hex 8 r)"

function quote_body :: "(nat \<Rightarrow> bool) \<Rightarrow> string \<Rightarrow> string" where
  "quote_body table [] = []"
| "quote_body table (c # cs) =
     (case DecodeRune (map byte (c # cs)) of
        None \<Rightarrow> [CHR 0x5C, CHR ''x''] @ hex 2 (byte c) @ quote_body table cs
      | Some (r, w) \<Rightarrow>
          appendEscapedRune table r (take w (c # cs)) @ quote_body table (drop w (c # cs)))"
  by pat_completeness auto
termination
  by (relation "measure (\<lambda>(table, s). length s)") (auto dest: DecodeRune_width simp del: DecodeRune.simps)

definition Quote :: "(nat \<Rightarrow> bool) \<Rightarrow> string \<Rightarrow> string" where
  "Quote table s = CHR 0x22 # quote_body table s @ [CHR 0x22]"

subsection \<open>Time\<close>

text \<open>A time is its distance from the Unix epoch in seconds.\<close>

definition pad :: "nat \<Rightarrow> int \<Rightarrow> string" where
  "pad w n = (let s = decimal (nat n) in replicate (w - length s) CHR ''0'' @ s)"

text \<open>Year, month and day of a day counted from the epoch, in the proleptic Gregorian calendar.\<close>

definition civil :: "int \<Rightarrow> int \<times> int \<times> int" where
  "civil days =
     (let z = days + 719468;
          era = z div 146097;
          doe = z mod 146097;
          yoe = (doe - doe div 1460 + doe div 36524 - doe div 146096) div 365;
          doy = doe - (365 * yoe + yoe div 4 - yoe div 100);
          mp = (5 * doy + 2) div 153;
          d = doy - (153 * mp + 2) div 5 + 1;
          m = (if mp < 10 then mp + 3 else mp - 9);
          y = yoe + era * 400 + (if m \<le> 2 then 1 else 0)
      in (y, m, d))"

definition FormatRFC3339 :: "int \<Rightarrow> string" where
  "FormatRFC3339 unix =
     (let (y, m, d) = civil (unix div 86400); s = unix mod 86400
      in pad 4 y @ ''-'' @ pad 2 m @ ''-'' @ pad 2 d @ ''T'' @ pad 2 (s div 3600) @ '':''
         @ pad 2 (s div 60 mod 60) @ '':'' @ pad 2 (s mod 60) @ ''Z'')"

subsection \<open>JSON strings\<close>

text \<open>
  JSON (RFC 8259) as far as the programs print it: a string is read after its opening quote
  and gives the characters it stands for and the rest of the text; an object has string
  members only. Escapes by code point, \<open>\u\<close>, are not among those read.
\<close>

definition json_escapes :: "(char \<times> char) list" where
  "json_escapes =
     [(CHR 0x22, CHR 0x22), (CHR 0x5C, CHR 0x5C), (CHR ''/'', CHR ''/''), (CHR ''b'', CHR 0x08),
      (CHR ''f'', CHR 0x0C), (CHR 0x6E, CHR 0x0A), (CHR ''r'', CHR 0x0D), (CHR ''t'', CHR 0x09)]"

fun json_chars :: "string \<Rightarrow> (string \<times> string) option" where
  "json_chars [] = None"
| "json_chars (c # cs) =
     (if c = CHR 0x22 then Some ([], cs)
      else if c = CHR 0x5C then
        (case cs of
           [] \<Rightarrow> None
         | e # r \<Rightarrow>
             (case map_of json_escapes e of
                None \<Rightarrow> None
              | Some x \<Rightarrow> map_option (apfst ((#) x)) (json_chars r)))
      else if byte c < 0x20 then None
      else map_option (apfst ((#) c)) (json_chars cs))"

definition expect :: "char \<Rightarrow> string \<Rightarrow> string option" where
  "expect c s = (case s of d # ds \<Rightarrow> if d = c then Some ds else None | [] \<Rightarrow> None)"

definition json_string :: "string \<Rightarrow> (string \<times> string) option" where
  "json_string s = Option.bind (expect CHR 0x22 s) json_chars"

text \<open>The members of an object after its opening brace; the number bounds the members read.\<close>

fun json_members :: "nat \<Rightarrow> string \<Rightarrow> (string \<times> string) list option" where
  "json_members 0 s = None"
| "json_members (Suc n) s =
     Option.bind (json_string s) (\<lambda>(k, s1).
     Option.bind (expect CHR '':'' s1) (\<lambda>s2.
     Option.bind (json_string s2) (\<lambda>(v, s3).
       if s3 = ''}'' then Some [(k, v)]
       else Option.bind (expect CHR '','' s3) (\<lambda>s4. map_option ((#) (k, v)) (json_members n s4)))))"

definition json_object :: "string \<Rightarrow> (string \<times> string) list option" where
  "json_object s = Option.bind (expect CHR ''{'' s) (json_members (length s))"

definition printable :: "string \<Rightarrow> bool" where
  "printable s \<longleftrightarrow> (\<forall>c \<in> set s. 0x20 \<le> byte c \<and> byte c < 0x7F)"

section \<open>Lemmas\<close>

lemma byte_inject [simp]: "byte c = byte d \<longleftrightarrow> c = d"
  by (simp add: byte_def)

lemma char_of_byte [simp]: "char_of (byte c) = c"
  by (simp add: byte_def)

lemma byte_char_of: "n < 256 \<Longrightarrow> byte (char_of n) = n"
  by (simp add: byte_def)

lemma printable_Cons [simp]: "printable (c # s) \<longleftrightarrow> 0x20 \<le> byte c \<and> byte c < 0x7F \<and> printable s"
  by (simp add: printable_def conj_assoc)

lemma printable_append [simp]: "printable (s @ t) \<longleftrightarrow> printable s \<and> printable t"
  by (auto simp: printable_def)

lemma printable_Nil [simp]: "printable []"
  by (simp add: printable_def)

lemma byte_quote: "byte c = 0x22 \<longleftrightarrow> c = CHR 0x22" and byte_backslash: "byte c = 0x5C \<longleftrightarrow> c = CHR 0x5C"
  using byte_inject [of c "CHR 0x22"] byte_inject [of c "CHR 0x5C"] by (simp_all add: byte_def)

lemma quote_body_printable:
  "0x20 \<le> byte c \<Longrightarrow> byte c < 0x7F \<Longrightarrow>
   quote_body table (c # cs) =
     (if c = CHR 0x22 \<or> c = CHR 0x5C then [CHR 0x5C, c] else [c]) @ quote_body table cs"
  by (auto simp: appendEscapedRune_def IsPrint_def byte_quote byte_backslash)

lemma json_chars_quote_body:
  "printable s \<Longrightarrow> json_chars (quote_body table s @ CHR 0x22 # rest) = Some (s, rest)"
  by (induction s) (simp_all add: quote_body_printable json_escapes_def del: quote_body.simps(2))

text \<open>Quoted printable text is the JSON string for that text.\<close>

lemma json_string_Quote [simp]: "printable s \<Longrightarrow> json_string (Quote table s @ rest) = Some (s, rest)"
  by (simp add: json_string_def expect_def Quote_def json_chars_quote_body)

text \<open>A control character without an escape of its own makes the result no JSON string.\<close>

lemma Quote_control: "json_string (Quote table [CHR 0x01]) = None"
  by (simp add: json_string_def expect_def Quote_def appendEscapedRune_def IsPrint_def escapes_def
      byte_def json_escapes_def)

lemma printable_hex [simp]: "printable (hex k n)"
proof (induction k arbitrary: n)
  case (Suc k)
  have "n mod 16 < 16" by simp
  then have "printable [hex_digit (n mod 16)]" by (auto simp: hex_digit_def byte_char_of)
  with Suc show ?case by simp
qed simp

lemma printable_escaped: "r < 0x80 \<Longrightarrow> printable (appendEscapedRune table r [char_of r])"
  by (auto simp: appendEscapedRune_def IsPrint_def byte_char_of escapes_def split: option.splits if_splits)
    (auto simp: byte_def)

text \<open>Quoting makes any ASCII text printable.\<close>

lemma printable_quote_body: "\<forall>c \<in> set s. byte c < 0x80 \<Longrightarrow> printable (quote_body table s)"
proof (induction s)
  case (Cons c cs)
  then have "quote_body table (c # cs) = appendEscapedRune table (byte c) [char_of (byte c)] @ quote_body table cs"
    by simp
  with Cons printable_escaped [of "byte c"] show ?case by simp
qed simp

lemma printable_Quote: "\<forall>c \<in> set s. byte c < 0x80 \<Longrightarrow> printable (Quote table s)"
  by (simp add: Quote_def printable_quote_body) (simp add: byte_def)

lemma printable_ascii: "printable s \<Longrightarrow> \<forall>c \<in> set s. byte c < 0x80"
  by (fastforce simp: printable_def)

lemma printable_decimal [simp]: "printable (decimal n)"
proof -
  have "0x20 \<le> byte c \<and> byte c < 0x7F" if "is_digit c" for c
    using that by (simp add: is_digit_def byte_def)
  then show ?thesis using decimal_digits by (auto simp: printable_def)
qed

lemma printable_pad [simp]: "printable (pad w n)"
  by (simp add: pad_def Let_def) (auto simp: printable_def byte_def)

lemma printable_RFC3339 [simp]: "printable (FormatRFC3339 t)"
  by (simp add: FormatRFC3339_def Let_def split: prod.splits) (simp add: byte_def)

lemma FormatRFC3339_examples:
  "FormatRFC3339 0 = ''1970-01-01T00:00:00Z'' \<and> FormatRFC3339 951826332 = ''2000-02-29T12:12:12Z''
   \<and> FormatRFC3339 4107542399 = ''2100-02-28T23:59:59Z''"
  by code_simp

lemma json_string_Cons [simp]: "json_string (CHR 0x22 # cs) = json_chars cs"
  by (simp add: json_string_def expect_def)

lemma json_members_mono: "json_members n s = Some r \<Longrightarrow> n \<le> m \<Longrightarrow> json_members m s = Some r"
proof (induction n arbitrary: m s r)
  case (Suc n)
  then obtain l where m: "m = Suc l" "n \<le> l" by (cases m) auto
  from Suc.prems(1) obtain k s1 s2 v s3 where
    read: "json_string s = Some (k, s1)" "expect CHR '':'' s1 = Some s2" "json_string s2 = Some (v, s3)"
    and more: "s3 = ''}'' \<and> r = [(k, v)] \<or>
      s3 \<noteq> ''}'' \<and> (\<exists>s4 r'. expect CHR '','' s3 = Some s4 \<and> json_members n s4 = Some r' \<and> r = (k, v) # r')"
    by (auto simp: bind_eq_Some_conv split: if_splits)
  from more show ?case
  proof
    assume "s3 = ''}'' \<and> r = [(k, v)]"
    with read m show ?thesis by simp
  next
    assume "s3 \<noteq> ''}'' \<and> (\<exists>s4 r'. expect CHR '','' s3 = Some s4 \<and> json_members n s4 = Some r' \<and> r = (k, v) # r')"
    then obtain s4 r' where "s3 \<noteq> ''}''" "expect CHR '','' s3 = Some s4" "json_members l s4 = Some r'" "r = (k, v) # r'"
      using Suc.IH m(2) by blast
    with read m(1) show ?thesis by simp
  qed
qed simp

lemma json_objectI:
  "s = CHR ''{'' # t \<Longrightarrow> json_members n t = Some r \<Longrightarrow> n \<le> length s \<Longrightarrow> json_object s = Some r"
  using json_members_mono [of n t r "length s"] by (simp add: json_object_def expect_def del: json_members.simps)

end
