(* ===== verification/Proxy_Target_Health.thy ===== *)
theory Proxy_Target_Health
  imports Transition Proxy_Config Proxy_Metrics Go_Fmt
begin

text \<open>
  The health of the target: the probe, \<open>probeTarget\<close> and \<open>dialTCP\<close> of
  \<open>internal/proxy/server.go\<close>, and \<open>internal/proxy/targethealth.go\<close>, where one background
  goroutine probes on an interval and \<open>stopTargetProber\<close> waits for it. What the network does
  is an input. The prober is a step relation over any number of callers of
  \<open>startTargetProber\<close> and \<open>stopTargetProber\<close>; the section each runs under \<open>proberMu\<close> is one
  step, since the fields it touches are touched nowhere else.
\<close>

section \<open>The probe\<close>

definition targetBannerReadLimit :: nat where
  "targetBannerReadLimit = 255"

text \<open>
  \<open>dialTCP\<close>: the address is split before the network is asked. An error is its text; the
  network's answer for a host and port is an argument, \<open>None\<close> for a connection.
\<close>

fun AddrError_text :: "AddrError \<Rightarrow> string" where
  "AddrError_text MissingPort = ''missing port in address''"
| "AddrError_text TooManyColons = ''too many colons in address''"
| "AddrError_text MissingBracket = ''missing ']' in address''"
| "AddrError_text UnexpectedOpen = ''unexpected '[' in address''"
| "AddrError_text UnexpectedClose = ''unexpected ']' in address''"

definition dialTCP :: "(string \<Rightarrow> string \<Rightarrow> string option) \<Rightarrow> string \<Rightarrow> string option" where
  "dialTCP net addr =
     (case SplitHostPort addr of
        Err e \<Rightarrow> Some (''dial tcp: address '' @ addr @ '': '' @ AddrError_text e)
      | Ok (host, port) \<Rightarrow> net host port)"

text \<open>What a connection delivers: the bytes until it ends, and the error it ends with.\<close>

type_synonym stream = "string \<times> string"

definition LimitReader :: "nat \<Rightarrow> stream \<Rightarrow> stream" where
  "LimitReader n st = (if length (fst st) < n then st else (take n (fst st), ''EOF''))"

definition newline :: char where
  "newline = CHR 0x0A"

text \<open>\<open>ReadString('\n')\<close>: the text up to and including the newline, or everything and the error.\<close>

definition ReadString :: "stream \<Rightarrow> string \<times> string option" where
  "ReadString st =
     (case IndexByte (fst st) newline of
        Some i \<Rightarrow> (take (Suc i) (fst st), None)
      | None \<Rightarrow> (fst st, Some (snd st)))"

text \<open>What one probe meets, and its error, the texts of \<open>fmt.Errorf\<close> included.\<close>

record probe_io =
  dialed :: "string \<Rightarrow> string \<Rightarrow> string option"
  has_deadline :: bool
  set_deadline :: "string option"
  greeting :: stream

definition probeTarget :: "(nat \<Rightarrow> bool) \<Rightarrow> probe_io \<Rightarrow> string \<Rightarrow> string \<Rightarrow> string option" where
  "probeTarget table io addr bannerPrefix =
     (case dialTCP (dialed io) addr of
        Some err \<Rightarrow> Some err
      | None \<Rightarrow>
          if bannerPrefix = '''' then None
          else
            case (if has_deadline io then set_deadline io else None) of
              Some err \<Rightarrow> Some (''failed to set read deadline: '' @ err)
            | None \<Rightarrow>
                case ReadString (LimitReader targetBannerReadLimit (greeting io)) of
                  (banner, err) \<Rightarrow>
                    if err \<noteq> None \<and> banner = ''''
                    then Some (''connected but read no greeting: '' @ the err)
                    else if \<not> HasPrefix banner bannerPrefix
                    then Some (''greeting '' @ Quote table (TrimRightCRLF banner)
                               @ '' does not start with '' @ Quote table bannerPrefix)
                    else None)"

section \<open>The recorded result\<close>

record targetHealth =
  checked :: bool
  reachable :: bool
  checkedAt :: int
  herr :: string

definition newTargetHealth :: targetHealth where
  "newTargetHealth = \<lparr>checked = False, reachable = False, checkedAt = 0, herr = ''''\<rparr>"

definition record_result :: "bool \<Rightarrow> string option \<Rightarrow> int \<Rightarrow> targetHealth \<Rightarrow> targetHealth" where
  "record_result r err now h =
     h\<lparr>checked := True, reachable := r, checkedAt := now,
       herr := (case err of None \<Rightarrow> '''' | Some e \<Rightarrow> e)\<rparr>"

definition snapshot :: "targetHealth \<Rightarrow> targetHealth" where
  "snapshot h = \<lparr>checked = checked h, reachable = reachable h, checkedAt = checkedAt h, herr = herr h\<rparr>"

text \<open>\<open>probeOnce\<close> after its probe: \<open>ctxCanceled\<close> tells whether \<open>ctx.Err()\<close> is \<open>context.Canceled\<close>.\<close>

definition probeOnce ::
    "bool \<Rightarrow> string option \<Rightarrow> int \<Rightarrow> targetHealth \<times> metrics \<Rightarrow> targetHealth \<times> metrics" where
  "probeOnce ctxCanceled err now s =
     (if ctxCanceled then s
      else
        (record_result (err = None) err now (fst s),
         snd s @ [TargetReachable_Set (if err \<noteq> None then 0 else 1)]))"

definition proberInterval :: "Config \<Rightarrow> Duration" where
  "proberInterval c =
     (if TargetHealthInterval c \<le> 0 then defaultTargetHealthInterval else TargetHealthInterval c)"

section \<open>The prober goroutine, its starters and stoppers\<close>

datatype start_pc = S_Idle | S_Go | S_Done

datatype stop_pc =
    X_Idle
  | X_Cancel "nat option"   \<comment> \<open>left the critical section with this \<open>done\<close> channel\<close>
  | X_Wait "nat option"     \<comment> \<open>cancelled, receiving from the channel\<close>
  | X_Stopped               \<comment> \<open>returned after waiting\<close>
  | X_Early                 \<comment> \<open>returned because another call stops the prober\<close>

datatype prober_pc =
    G_None
  | G_Probe bool                    \<comment> \<open>probing; whether the probe's own timeout has expired\<close>
  | G_Check bool "string option"    \<comment> \<open>the probe's result, before \<open>ctx.Err()\<close> is read\<close>
  | G_Record "string option"
  | G_Set "string option"
  | G_Select
  | G_Close
  | G_Exited

record prober =
  starters :: "nat \<Rightarrow> start_pc"
  stoppers :: "nat \<Rightarrow> stop_pc"
  probers :: "nat \<Rightarrow> prober_pc"     \<comment> \<open>the goroutine the \<open>i\<close>-th starter spawns\<close>
  proberStopped :: bool
  proberDone :: "nat option"         \<comment> \<open>a channel is named by the starter that made it\<close>
  closedChans :: "nat set"
  proberCancelled :: bool
  health :: targetHealth
  plog :: metrics

definition prober_start :: prober where
  "prober_start =
     \<lparr>starters = (\<lambda>_. S_Idle), stoppers = (\<lambda>_. X_Idle), probers = (\<lambda>_. G_None),
      proberStopped = False, proberDone = None, closedChans = {}, proberCancelled = False,
      health = newTargetHealth, plog = []\<rparr>"

definition prober_init :: "prober \<Rightarrow> bool" where
  "prober_init s \<longleftrightarrow> s = prober_start"

text \<open>
  The steps of the program; those of the environment, a tick and a probe's timeout, are the
  last two rules.
\<close>

inductive prober_step :: "prober \<Rightarrow> prober \<Rightarrow> bool" where
  \<comment> \<open>\<open>startTargetProber\<close>\<close>
  start_noop: "starters s i = S_Idle \<Longrightarrow> proberStopped s \<or> proberDone s \<noteq> None \<Longrightarrow>
    prober_step s (s\<lparr>starters := (starters s)(i := S_Done)\<rparr>)"
| start: "starters s i = S_Idle \<Longrightarrow> \<not> (proberStopped s \<or> proberDone s \<noteq> None) \<Longrightarrow>
    prober_step s (s\<lparr>starters := (starters s)(i := S_Go), proberDone := Some i\<rparr>)"
| spawn: "starters s i = S_Go \<Longrightarrow>
    prober_step s (s\<lparr>starters := (starters s)(i := S_Done), probers := (probers s)(i := G_Probe False)\<rparr>)"
  \<comment> \<open>\<open>stopTargetProber\<close>\<close>
| stop_noop: "stoppers s j = X_Idle \<Longrightarrow> proberStopped s \<Longrightarrow>
    prober_step s (s\<lparr>stoppers := (stoppers s)(j := X_Early)\<rparr>)"
| stop: "stoppers s j = X_Idle \<Longrightarrow> \<not> proberStopped s \<Longrightarrow>
    prober_step s (s\<lparr>stoppers := (stoppers s)(j := X_Cancel (proberDone s)), proberStopped := True\<rparr>)"
| stop_cancel: "stoppers s j = X_Cancel d \<Longrightarrow>
    prober_step s (s\<lparr>stoppers := (stoppers s)(j := X_Wait d), proberCancelled := True\<rparr>)"
| stop_wait: "stoppers s j = X_Wait d \<Longrightarrow> (case d of None \<Rightarrow> True | Some i \<Rightarrow> i \<in> closedChans s) \<Longrightarrow>
    prober_step s (s\<lparr>stoppers := (stoppers s)(j := X_Stopped)\<rparr>)"
  \<comment> \<open>the goroutine\<close>
| probed: "probers s i = G_Probe expired \<Longrightarrow>
    prober_step s (s\<lparr>probers := (probers s)(i := G_Check expired err)\<rparr>)"
| check_cancelled: "probers s i = G_Check False err \<Longrightarrow> proberCancelled s \<Longrightarrow>
    prober_step s (s\<lparr>probers := (probers s)(i := G_Select)\<rparr>)"
| check_ok: "probers s i = G_Check expired err \<Longrightarrow> expired \<or> \<not> proberCancelled s \<Longrightarrow>
    prober_step s (s\<lparr>probers := (probers s)(i := G_Record err)\<rparr>)"
| recorded: "probers s i = G_Record err \<Longrightarrow>
    prober_step s (s\<lparr>probers := (probers s)(i := G_Set err),
                     health := record_result (err = None) err now (health s)\<rparr>)"
| set_metric: "probers s i = G_Set err \<Longrightarrow>
    prober_step s (s\<lparr>probers := (probers s)(i := G_Select),
                     plog := plog s @ [TargetReachable_Set (if err \<noteq> None then 0 else 1)]\<rparr>)"
| select_done: "probers s i = G_Select \<Longrightarrow> proberCancelled s \<Longrightarrow>
    prober_step s (s\<lparr>probers := (probers s)(i := G_Close)\<rparr>)"
| close_done: "probers s i = G_Close \<Longrightarrow>
    prober_step s (s\<lparr>probers := (probers s)(i := G_Exited), closedChans := insert i (closedChans s)\<rparr>)"
  \<comment> \<open>the ticker and the timeout\<close>
| prober_tick: "probers s i = G_Select \<Longrightarrow>
    prober_step s (s\<lparr>probers := (probers s)(i := G_Probe False)\<rparr>)"
| probe_expires: "probers s i = G_Probe False \<Longrightarrow> \<not> proberCancelled s \<Longrightarrow>
    prober_step s (s\<lparr>probers := (probers s)(i := G_Probe True)\<rparr>)"
| check_expires: "probers s i = G_Check False err \<Longrightarrow> \<not> proberCancelled s \<Longrightarrow>
    prober_step s (s\<lparr>probers := (probers s)(i := G_Check True err)\<rparr>)"

definition start_inv :: "prober \<Rightarrow> bool" where
  "start_inv s \<longleftrightarrow>
     (\<forall>i. (starters s i = S_Go \<or> probers s i \<noteq> G_None) = (proberDone s = Some i)) \<and>
     (\<forall>i. starters s i = S_Go \<longrightarrow> probers s i = G_None) \<and>
     (\<forall>i. i \<in> closedChans s \<longleftrightarrow> probers s i = G_Exited)"

fun stop_ok :: "prober \<Rightarrow> stop_pc \<Rightarrow> bool" where
  "stop_ok s X_Idle = True"
| "stop_ok s (X_Cancel d) = (proberStopped s \<and> d = proberDone s)"
| "stop_ok s (X_Wait d) = (proberStopped s \<and> d = proberDone s \<and> proberCancelled s)"
| "stop_ok s X_Stopped =
     (proberStopped s \<and> (case proberDone s of None \<Rightarrow> True | Some i \<Rightarrow> i \<in> closedChans s))"
| "stop_ok s X_Early = proberStopped s"

definition stop_inv :: "prober \<Rightarrow> bool" where
  "stop_inv s \<longleftrightarrow> (\<forall>j. stop_ok s (stoppers s j))"

text \<open>The result recorded but not yet shown by the metric, if any.\<close>

fun unset :: "prober_pc \<Rightarrow> string option option" where
  "unset (G_Set err) = Some err"
| "unset _ = None"

definition health_inv :: "prober \<Rightarrow> bool" where
  "health_inv s \<longleftrightarrow>
     (case Option.bind (proberDone s) (\<lambda>i. unset (probers s i)) of
        Some err \<Rightarrow> checked (health s) \<and> reachable (health s) = (err = None)
      | None \<Rightarrow> reachable_gauge (plog s) = of_bool (checked (health s) \<and> reachable (health s)))"

definition prober_inv :: "prober \<Rightarrow> bool" where
  "prober_inv s \<longleftrightarrow> start_inv s \<and> stop_inv s \<and> health_inv s"

section \<open>Lemmas\<close>

lemma start_inv_step: "prober_step s t \<Longrightarrow> start_inv s \<Longrightarrow> start_inv t"
  by (induction rule: prober_step.induct)
    (auto simp: start_inv_def split: if_splits, (metis start_pc.distinct(1))+)

lemma stop_ok_step: "prober_step s t \<Longrightarrow> stop_ok s pc \<Longrightarrow> stop_ok t pc"
  by (induction rule: prober_step.induct; cases pc) (auto split: option.splits)

lemma stop_inv_step:
  assumes "prober_step s t" and "stop_inv s"
  shows "stop_inv t"
proof -
  have "stop_ok t (stoppers t j)" for j
  proof (cases "stoppers t j = stoppers s j")
    case True
    with assms stop_ok_step show ?thesis by (simp add: stop_inv_def)
  next
    case False
    from assms(1) False spec [OF assms(2) [unfolded stop_inv_def], of j] show ?thesis
      by (induction rule: prober_step.induct) (auto split: if_splits option.splits)
  qed
  then show ?thesis by (simp add: stop_inv_def)
qed

lemma prober_unique: "probers s i = p \<Longrightarrow> start_inv s \<Longrightarrow> p \<noteq> G_None \<Longrightarrow> proberDone s = Some i"
  by (auto simp: start_inv_def)

lemma starter_unique: "starters s i = S_Go \<Longrightarrow> start_inv s \<Longrightarrow> proberDone s = Some i \<and> probers s i = G_None"
  by (auto simp: start_inv_def)

lemma no_prober: "start_inv s \<Longrightarrow> proberDone s = None \<Longrightarrow> probers s i = G_None"
  by (auto simp: start_inv_def)

lemma health_inv_step: "prober_step s t \<Longrightarrow> start_inv s \<Longrightarrow> health_inv s \<Longrightarrow> health_inv t"
  by (induction rule: prober_step.induct; (frule (1) prober_unique, simp)?; (frule (1) starter_unique)?)
    (auto simp: health_inv_def record_result_def no_prober split: if_splits option.splits)

lemma prober_inv_step: "prober_step s t \<Longrightarrow> prober_inv s \<Longrightarrow> prober_inv t"
  by (auto simp: prober_inv_def intro: start_inv_step stop_inv_step health_inv_step)

lemma prober_inv_start: "prober_inv prober_start"
  by (simp add: prober_inv_def start_inv_def stop_inv_def health_inv_def prober_start_def
      newTargetHealth_def reachable_gauge_def)

interpretation prober_sys: invariant_system prober_init prober_step prober_inv
  by unfold_locales (simp_all add: prober_init_def prober_inv_start prober_inv_step)

lemma reach_prober_start: "reach prober_init prober_step prober_start"
  by (simp add: reach_init prober_init_def)

text \<open>Once a call that waited has returned, nothing of the prober runs any more.\<close>

fun prober_idle :: "prober_pc \<Rightarrow> bool" where
  "prober_idle G_None = True"
| "prober_idle G_Exited = True"
| "prober_idle _ = False"

definition quiet :: "prober \<Rightarrow> bool" where
  "quiet s \<longleftrightarrow> proberStopped s \<and> (\<forall>i. starters s i \<noteq> S_Go) \<and> (\<forall>i. prober_idle (probers s i))"

lemma stopped_quiet:
  assumes "start_inv s" and "stop_inv s" and "stoppers s j = X_Stopped"
  shows "quiet s"
proof -
  from assms(2,3) have stop: "stop_ok s X_Stopped" by (metis stop_inv_def)
  have "starters s i \<noteq> S_Go \<and> prober_idle (probers s i)" for i
  proof (cases "proberDone s = Some i")
    case True
    with stop have "i \<in> closedChans s" by simp
    with assms(1) have "probers s i = G_Exited" by (simp add: start_inv_def)
    with assms(1) show ?thesis by (auto simp: start_inv_def)
  next
    case False
    with assms(1) have "starters s i \<noteq> S_Go \<and> probers s i = G_None" by (auto simp: start_inv_def)
    then show ?thesis by simp
  qed
  with stop show ?thesis by (simp add: quiet_def)
qed

lemma quiet_prober: "probers s i = p \<Longrightarrow> quiet s \<Longrightarrow> prober_idle p"
  by (auto simp: quiet_def)

lemma quiet_step: "prober_step s t \<Longrightarrow> quiet s \<Longrightarrow> quiet t \<and> health t = health s \<and> plog t = plog s"
  by (induction rule: prober_step.induct; (frule (1) quiet_prober, simp)?) (auto simp: quiet_def)

lemma quiet_steps: "prober_step\<^sup>*\<^sup>* s t \<Longrightarrow> quiet s \<Longrightarrow> quiet t \<and> health t = health s \<and> plog t = plog s"
  by (induction rule: rtranclp_induct) (auto dest: quiet_step)

text \<open>A waiting stopper's goroutine can go on until it has closed its channel.\<close>

definition chan_closable :: "nat \<Rightarrow> prober \<Rightarrow> bool" where
  "chan_closable i s \<longleftrightarrow> (\<exists>t. prober_step\<^sup>*\<^sup>* s t \<and> i \<in> closedChans t \<and> stoppers t = stoppers s)"

lemma chan_closable_step:
  "prober_step s t \<Longrightarrow> stoppers t = stoppers s \<Longrightarrow> chan_closable i t \<Longrightarrow> chan_closable i s"
  unfolding chan_closable_def by (auto intro: rtranclp_stepI)

lemma closable_Close: "probers s i = G_Close \<Longrightarrow> chan_closable i s"
  by (rule chan_closable_step [OF prober_step.close_done [of s i]]) (auto simp: chan_closable_def)

lemma closable_Select: "probers s i = G_Select \<Longrightarrow> proberCancelled s \<Longrightarrow> chan_closable i s"
  by (rule chan_closable_step [OF prober_step.select_done [of s i]]) (simp_all add: closable_Close)

lemma closable_Set: "probers s i = G_Set e \<Longrightarrow> proberCancelled s \<Longrightarrow> chan_closable i s"
  by (rule chan_closable_step [OF prober_step.set_metric [of s i]]) (simp_all add: closable_Select)

lemma closable_Record: "probers s i = G_Record e \<Longrightarrow> proberCancelled s \<Longrightarrow> chan_closable i s"
  by (rule chan_closable_step [OF prober_step.recorded [of s i]]) (simp_all add: closable_Set)

lemma closable_Check: "probers s i = G_Check b e \<Longrightarrow> proberCancelled s \<Longrightarrow> chan_closable i s"
proof (cases b)
  case True
  assume "probers s i = G_Check b e" "proberCancelled s"
  with True show ?thesis
    by (intro chan_closable_step [OF prober_step.check_ok [of s i]]) (simp_all add: closable_Record)
next
  case False
  assume "probers s i = G_Check b e" "proberCancelled s"
  with False show ?thesis
    by (intro chan_closable_step [OF prober_step.check_cancelled [of s i]]) (simp_all add: closable_Select)
qed

lemma closable_Probe: "probers s i = G_Probe b \<Longrightarrow> proberCancelled s \<Longrightarrow> chan_closable i s"
  by (rule chan_closable_step [OF prober_step.probed [of s i]]) (simp_all add: closable_Check)

lemma closable_Go: "starters s i = S_Go \<Longrightarrow> proberCancelled s \<Longrightarrow> chan_closable i s"
  by (rule chan_closable_step [OF prober_step.spawn [of s i]]) (simp_all add: closable_Probe [of _ i False])

lemmas closable = closable_Close closable_Select closable_Set closable_Record closable_Check
  closable_Probe closable_Go

lemma done_closable:
  assumes "start_inv s" and "proberDone s = Some i" and "proberCancelled s"
  shows "chan_closable i s"
proof (cases "i \<in> closedChans s")
  case True
  then show ?thesis by (auto simp: chan_closable_def)
next
  case False
  with assms have "starters s i = S_Go \<or> probers s i \<notin> {G_None, G_Exited}"
    by (auto simp: start_inv_def)
  with assms(3) show ?thesis by (cases "probers s i") (auto intro: closable)
qed

text \<open>The greeting: the first line within the limit starts with the prefix.\<close>

fun line :: "string \<Rightarrow> string" where
  "line [] = []"
| "line (c # cs) = (if c = newline then [c] else c # line cs)"

lemma fst_ReadString: "fst (ReadString st) = line (fst st)"
proof -
  have "(case IndexByte d newline of Some i \<Rightarrow> take (Suc i) d | None \<Rightarrow> d) = line d" for d
    by (induction d) (auto split: option.splits)
  then show ?thesis by (simp add: ReadString_def split: option.splits) (metis option.simps(4,5))
qed

lemma HasPrefix_line: "HasPrefix (line d) p \<longleftrightarrow> HasPrefix d p \<and> newline \<notin> set (butlast p)"
proof (induction d arbitrary: p)
  case Nil
  then show ?case by (cases p) (auto simp: HasPrefix_def)
next
  case (Cons c cs)
  then show ?case by (cases p) (auto simp: HasPrefix_def)
qed

lemma HasPrefix_take: "HasPrefix (take n d) p \<longleftrightarrow> HasPrefix d p \<and> length p \<le> n"
  by (auto simp: HasPrefix_def min_def split: if_splits)

lemma fst_LimitReader: "fst (LimitReader n st) = take n (fst st)"
  by (auto simp: LimitReader_def)

text \<open>
  The text of a failed probe is printable whenever the texts the network gives are and the
  greeting is ASCII.
\<close>

lemma set_TrimRightCRLF: "set (TrimRightCRLF s) \<subseteq> set s"
  using set_dropWhileD by (fastforce simp: TrimRightCRLF_def)

lemma set_line: "set (line s) \<subseteq> set s"
  by (induction s) auto

lemma printable_AddrError: "printable (AddrError_text e)"
  by (cases e) (simp_all add: byte_def)

lemma probeTarget_printable:
  assumes "probeTarget table io addr p = Some err"
    and "printable addr" and "\<And>h q e. dialed io h q = Some e \<Longrightarrow> printable e"
    and "\<And>e. set_deadline io = Some e \<Longrightarrow> printable e" and "printable (snd (greeting io))"
    and "\<forall>ch \<in> set (fst (greeting io)). byte ch < 0x80" and "\<forall>ch \<in> set p. byte ch < 0x80"
  shows "printable err"
proof -
  obtain banner e where rs: "ReadString (LimitReader targetBannerReadLimit (greeting io)) = (banner, e)"
    by fastforce
  then have "banner = line (take 255 (fst (greeting io)))"
    by (metis fst_ReadString fst_LimitReader fst_conv targetBannerReadLimit_def)
  then have "set (TrimRightCRLF banner) \<subseteq> set (fst (greeting io))"
    using set_TrimRightCRLF [of banner] set_line [of "take 255 (fst (greeting io))"]
      set_take_subset [of 255 "fst (greeting io)"] by blast
  with assms(6) have q: "printable (Quote table (TrimRightCRLF banner))"
    by (intro printable_Quote) blast
  have "printable (the e)" if "e \<noteq> None"
    using that rs assms(5)
    by (auto simp: ReadString_def LimitReader_def byte_def split: option.splits if_splits)
  moreover have "printable d" if "dialTCP (dialed io) addr = Some d" for d
    using that assms(2,3)
    by (auto simp: dialTCP_def printable_AddrError byte_def split: result.splits)
  moreover note assms(1,4) q printable_Quote [OF assms(7), of table]
  ultimately show ?thesis
    unfolding probeTarget_def rs by (auto simp: byte_def split: option.splits if_splits)
qed

text \<open>The two writes of the goroutine are those of \<open>probeOnce\<close>.\<close>

lemma probeOnce_steps:
  assumes "probers s i = G_Check False err"
  shows "\<exists>t. prober_step\<^sup>*\<^sup>* s t \<and> probers t i = G_Select
    \<and> (health t, plog t) = probeOnce (proberCancelled s) err now (health s, plog s)"
proof (cases "proberCancelled s")
  case True
  with assms have "prober_step s (s\<lparr>probers := (probers s)(i := G_Select)\<rparr>)"
    by (intro prober_step.check_cancelled)
  then have "prober_step\<^sup>*\<^sup>* s (s\<lparr>probers := (probers s)(i := G_Select)\<rparr>)" by blast
  with True show ?thesis
    by (intro exI [of _ "s\<lparr>probers := (probers s)(i := G_Select)\<rparr>"]) (simp add: probeOnce_def)
next
  case False
  let ?a = "s\<lparr>probers := (probers s)(i := G_Record err)\<rparr>"
  let ?b = "?a\<lparr>probers := (probers ?a)(i := G_Set err), health := record_result (err = None) err now (health ?a)\<rparr>"
  let ?c = "?b\<lparr>probers := (probers ?b)(i := G_Select),
      plog := plog ?b @ [TargetReachable_Set (if err \<noteq> None then 0 else 1)]\<rparr>"
  have "prober_step s ?a" using assms False by (intro prober_step.check_ok) auto
  moreover have "prober_step ?a ?b" by (intro prober_step.recorded) simp
  moreover have "prober_step ?b ?c" by (intro prober_step.set_metric) simp
  ultimately have "prober_step\<^sup>*\<^sup>* s ?c" by (meson rtranclp.rtrancl_refl rtranclp_stepI)
  with False show ?thesis by (intro exI [of _ ?c]) (simp add: probeOnce_def)
qed

lemma proberInterval_pos: "0 < proberInterval c"
  by (simp add: proberInterval_def defaultTargetHealthInterval_def duration_units)

lemma waiting_stops:
  assumes "start_inv s" and "stop_inv s" and "stoppers s j = X_Wait d"
  shows "\<exists>t. prober_step\<^sup>*\<^sup>* s t \<and> stoppers t j = X_Stopped"
proof -
  from assms(2,3) have ok: "stop_ok s (X_Wait d)" by (metis stop_inv_def)
  have "\<exists>t. prober_step\<^sup>*\<^sup>* s t \<and> stoppers t = stoppers s
      \<and> (case d of None \<Rightarrow> True | Some i \<Rightarrow> i \<in> closedChans t)"
  proof (cases d)
    case (Some i)
    with ok assms(1) have "chan_closable i s" by (intro done_closable) simp_all
    with Some show ?thesis by (auto simp: chan_closable_def)
  qed auto
  then obtain t where t: "prober_step\<^sup>*\<^sup>* s t" "stoppers t = stoppers s"
    "case d of None \<Rightarrow> True | Some i \<Rightarrow> i \<in> closedChans t" by blast
  have "prober_step t (t\<lparr>stoppers := (stoppers t)(j := X_Stopped)\<rparr>)"
    by (rule prober_step.stop_wait) (use t assms(3) in auto)
  with t(1) have "prober_step\<^sup>*\<^sup>* s (t\<lparr>stoppers := (stoppers t)(j := X_Stopped)\<rparr>)" by simp
  then show ?thesis
    by (intro exI [of _ "t\<lparr>stoppers := (stoppers t)(j := X_Stopped)\<rparr>"]) simp
qed

text \<open>A call that stops a prober whose goroutine has been announced but not yet spawned.\<close>

definition early_stop :: prober where
  "early_stop = prober_start\<lparr>starters := (\<lambda>_. S_Idle)(0 := S_Go), proberDone := Some 0,
     stoppers := (\<lambda>_. X_Idle)(0 := X_Wait (Some 0)), proberStopped := True, proberCancelled := True\<rparr>"

lemma reach_early_stop: "reach prober_init prober_step early_stop"
proof -
  let ?a = "prober_start\<lparr>starters := (starters prober_start)(0 := S_Go), proberDone := Some 0\<rparr>"
  let ?b = "?a\<lparr>stoppers := (stoppers ?a)(0 := X_Cancel (proberDone ?a)), proberStopped := True\<rparr>"
  let ?c = "?b\<lparr>stoppers := (stoppers ?b)(0 := X_Wait (Some 0)), proberCancelled := True\<rparr>"
  have "prober_step prober_start ?a" by (rule prober_step.start) (simp_all add: prober_start_def)
  moreover have "prober_step ?a ?b" by (rule prober_step.stop) (simp_all add: prober_start_def)
  moreover have "prober_step ?b ?c" by (rule prober_step.stop_cancel) simp
  ultimately have "reach prober_init prober_step ?c" by (meson reach_step reach_prober_start)
  then show ?thesis by (simp add: early_stop_def prober_start_def)
qed

lemma reach_stopped: "\<exists>s. reach prober_init prober_step s \<and> stoppers s 0 = X_Stopped"
proof -
  from prober_sys.reach_inv [OF reach_early_stop] have "start_inv early_stop" "stop_inv early_stop"
    by (simp_all add: prober_inv_def)
  moreover have "stoppers early_stop 0 = X_Wait (Some 0)" by (simp add: early_stop_def)
  ultimately show ?thesis using waiting_stops reach_rtranclp reach_early_stop by metis
qed

section \<open>Properties\<close>

text \<open>
  What a successful probe means. \<open>probeTarget\<close> reports no error exactly when the dial
  succeeds and either no prefix is configured or the read deadline could be set and the
  bytes the target sends begin with the prefix; the prefix has to fit the 255 bytes read and
  may hold a newline only at its end.
\<close>

theorem probeTarget_ok:
  "probeTarget table io addr bannerPrefix = None \<longleftrightarrow>
     dialTCP (dialed io) addr = None \<and>
     (bannerPrefix = '''' \<or>
      (if has_deadline io then set_deadline io else None) = None \<and>
      HasPrefix (fst (greeting io)) bannerPrefix \<and> length bannerPrefix \<le> 255 \<and>
      newline \<notin> set (butlast bannerPrefix))"
proof -
  obtain banner err where rs: "ReadString (LimitReader targetBannerReadLimit (greeting io)) = (banner, err)"
    by fastforce
  then have "banner = line (take 255 (fst (greeting io)))"
    by (metis fst_ReadString fst_LimitReader fst_conv targetBannerReadLimit_def)
  then have "HasPrefix banner bannerPrefix \<longleftrightarrow> HasPrefix (fst (greeting io)) bannerPrefix
      \<and> length bannerPrefix \<le> 255 \<and> newline \<notin> set (butlast bannerPrefix)"
    by (auto simp: HasPrefix_line HasPrefix_take)
  moreover have "\<not> HasPrefix '''' bannerPrefix" if "bannerPrefix \<noteq> ''''"
    using that by (simp add: HasPrefix_def)
  ultimately show ?thesis by (auto simp: probeTarget_def rs split: option.splits)
qed

text \<open>
  C26: however often and from however many goroutines \<open>startTargetProber\<close> and
  \<open>stopTargetProber\<close> are called, the server ever runs at most one prober, and whenever that
  prober is not between its two writes the gauge \<open>ws_proxy_target_reachable\<close> and the result
  \<open>/health/target\<close> reports agree.
\<close>

theorem prober_single:
  assumes "reach prober_init prober_step s"
  shows "(probers s i \<noteq> G_None \<and> probers s k \<noteq> G_None \<longrightarrow> i = k)
    \<and> ((\<forall>m. unset (probers s m) = None) \<longrightarrow>
         reachable_gauge (plog s) = of_bool (checked (health s) \<and> reachable (health s)))"
proof -
  from prober_sys.reach_inv [OF assms] have inv: "start_inv s" "health_inv s"
    by (simp_all add: prober_inv_def)
  then have "probers s i \<noteq> G_None \<and> probers s k \<noteq> G_None \<longrightarrow> i = k"
    by (metis option.inject prober_unique)
  moreover have "(\<forall>m. unset (probers s m) = None) \<longrightarrow>
      reachable_gauge (plog s) = of_bool (checked (health s) \<and> reachable (health s))"
    using inv(2) by (cases "proberDone s") (auto simp: health_inv_def)
  ultimately show ?thesis by blast
qed

theorem prober_single_witness:
  "reachable_gauge (plog early_stop) = of_bool (checked (health early_stop) \<and> reachable (health early_stop))"
proof -
  have "\<forall>m. unset (probers early_stop m) = None" by (simp add: early_stop_def prober_start_def)
  with prober_single [OF reach_early_stop] show ?thesis by blast
qed

text \<open>
  C9: when a call of \<open>stopTargetProber\<close> that waited returns, the prober is gone for good: no
  prober goroutine runs, none starts later, and neither the recorded result nor the metric
  changes again, whatever is called afterwards.
\<close>

theorem stopTargetProber_final:
  assumes "reach prober_init prober_step s" and "stoppers s j = X_Stopped" and "prober_step\<^sup>*\<^sup>* s t"
  shows "probers t i \<in> {G_None, G_Exited} \<and> starters t i \<noteq> S_Go \<and> health t = health s \<and> plog t = plog s"
proof -
  from prober_sys.reach_inv [OF assms(1)] have "quiet s"
    using stopped_quiet assms(2) by (auto simp: prober_inv_def)
  from quiet_steps [OF assms(3) this] have q: "quiet t" "health t = health s" "plog t = plog s" by auto
  then have "prober_idle (probers t i)" by (simp add: quiet_def)
  then show ?thesis using q by (cases "probers t i") (auto simp: quiet_def)
qed

theorem stopTargetProber_final_witness:
  "\<exists>s. reach prober_init prober_step s \<and> stoppers s 0 = X_Stopped \<and> starters s 7 \<noteq> S_Go"
proof -
  obtain s where s: "reach prober_init prober_step s" "stoppers s 0 = X_Stopped"
    using reach_stopped by blast
  with stopTargetProber_final [OF s rtranclp.rtrancl_refl] show ?thesis by blast
qed

text \<open>
  C27: \<open>stopTargetProber\<close> never waits for nothing: in every reachable state in which a call has
  cancelled the prober and waits on its channel, the program can go on to the point where
  that call returns, also when the prober's goroutine has not even been spawned yet.
\<close>

theorem stopTargetProber_returns:
  assumes "reach prober_init prober_step s" and "stoppers s j = X_Wait d"
  shows "\<exists>t. prober_step\<^sup>*\<^sup>* s t \<and> stoppers t j = X_Stopped"
  using prober_sys.reach_inv [OF assms(1)] assms(2) by (simp add: prober_inv_def waiting_stops)

theorem stopTargetProber_returns_witness:
  "\<exists>t. prober_step\<^sup>*\<^sup>* early_stop t \<and> stoppers t 0 = X_Stopped"
  by (rule stopTargetProber_returns [OF reach_early_stop, of 0 "Some 0"]) (simp add: early_stop_def)

end
