(* ===== verification/Go_Path.thy ===== *)
theory Go_Path
  imports Go_Base
begin

text \<open>
  What the programs use of Go's package \<open>path/filepath\<close> on Unix: \<open>Clean\<close>, \<open>Dir\<close>,
  \<open>Base\<close>, \<open>Join\<close> and \<open>IsAbs\<close>. The lemma that matters to a caller that walks up a path is
  that \<open>Dir\<close> either stays where it is, reaches the working directory or gets shorter.
\<close>

fun split_slash :: "string \<Rightarrow> string list" where
  "split_slash [] = [[]]"
| "split_slash (c # cs) =
     (if c = CHR ''/'' then [] # split_slash cs
      else (case split_slash cs of [] \<Rightarrow> [[c]] | x # xs \<Rightarrow> (c # x) # xs))"

fun join_slash :: "string list \<Rightarrow> string" where
  "join_slash [] = []"
| "join_slash [x] = x"
| "join_slash (x # y # zs) = x @ CHR ''/'' # join_slash (y # zs)"

text \<open>One element of the path, on the stack of elements kept so far (the last one first).\<close>

definition clean_step :: "bool \<Rightarrow> string list \<Rightarrow> string \<Rightarrow> string list" where
  "clean_step rooted st e =
     (if e = [] \<or> e = ''.'' then st
      else if e = ''..'' then
        (case st of
           [] \<Rightarrow> if rooted then [] else [''..'']
         | x # xs \<Rightarrow> if x = ''..'' then ''..'' # st else xs)
      else e # st)"

definition clean_elems :: "bool \<Rightarrow> string \<Rightarrow> string list" where
  "clean_elems rooted p = foldl (clean_step rooted) [] (split_slash p)"

definition IsAbs :: "string \<Rightarrow> bool" where
  "IsAbs p = HasPrefix p ''/''"

definition Clean :: "string \<Rightarrow> string" where
  "Clean p =
     (if p = [] then ''.''
      else
        let st = clean_elems (IsAbs p) p in
        if IsAbs p then CHR ''/'' # join_slash (rev st)
        else if st = [] then ''.''
        else join_slash (rev st))"

definition Dir :: "string \<Rightarrow> string" where
  "Dir p = (case LastIndexByte p CHR ''/'' of
              None \<Rightarrow> Clean []
            | Some i \<Rightarrow> Clean (take (Suc i) p))"

definition Base :: "string \<Rightarrow> string" where
  "Base p =
     (if p = [] then ''.''
      else
        let q = rev (dropWhile (\<lambda>c. c = CHR ''/'') (rev p)) in
        if q = [] then ''/''
        else (case LastIndexByte q CHR ''/'' of None \<Rightarrow> q | Some i \<Rightarrow> drop (Suc i) q))"

definition Join :: "string list \<Rightarrow> string" where
  "Join elems =
     (let es = dropWhile (\<lambda>e. e = []) elems in if es = [] then [] else Clean (join_slash es))"

section \<open>Lemmas\<close>

text \<open>The bytes a list of elements takes when each is followed by a separator.\<close>

definition weight :: "string list \<Rightarrow> nat" where
  "weight xs = sum_list (map (\<lambda>x. Suc (length x)) xs)"

lemma weight_simps [simp]: "weight [] = 0" "weight (x # xs) = Suc (length x) + weight xs"
  "weight (xs @ ys) = weight xs + weight ys" "weight (rev xs) = weight xs"
  by (simp_all add: weight_def flip: rev_map)

lemma split_slash_nonempty [simp]: "split_slash s \<noteq> []"
  by (cases s) (auto split: list.splits)

lemma weight_split_slash: "weight (split_slash s) = Suc (length s)"
proof (induction s)
  case (Cons c cs)
  then show ?case by (cases "split_slash cs") auto
qed simp

lemma split_slash_snoc: "split_slash (s @ ''/'') = split_slash s @ [[]]"
proof (induction s)
  case (Cons c cs)
  then show ?case by (cases "split_slash cs") auto
qed simp

lemma length_join_slash: "xs \<noteq> [] \<Longrightarrow> Suc (length (join_slash xs)) = weight xs"
  by (induction xs rule: join_slash.induct) auto

lemma weight_clean_step: "weight (clean_step r st e) \<le> weight st + Suc (length e)"
  by (auto simp: clean_step_def split: list.splits)

lemma weight_foldl_clean: "weight (foldl (clean_step r) st es) \<le> weight st + weight es"
proof (induction es arbitrary: st)
  case (Cons e es)
  from Cons.IH [of "clean_step r st e"] weight_clean_step [of r st e] show ?case by simp
qed simp

lemma weight_clean_elems: "weight (clean_elems r p) \<le> Suc (length p)"
  using weight_foldl_clean [of r "[]" "split_slash p"]
  by (simp add: clean_elems_def weight_split_slash)

lemma clean_elems_slash [simp]: "clean_elems r (CHR ''/'' # p) = clean_elems r p"
  by (simp add: clean_elems_def clean_step_def)

lemma clean_elems_snoc [simp]: "clean_elems r (p @ ''/'') = clean_elems r p"
  by (simp add: clean_elems_def split_slash_snoc clean_step_def)

lemma IsAbs_append [simp]: "p \<noteq> [] \<Longrightarrow> IsAbs (p @ q) = IsAbs p"
  by (cases p) (auto simp: IsAbs_def HasPrefix_def)

lemma IsAbs_Cons [simp]: "IsAbs (c # p) \<longleftrightarrow> c = CHR ''/''"
  by (auto simp: IsAbs_def HasPrefix_def)

lemma Clean_trailing_slash: "p \<noteq> [] \<Longrightarrow> Clean (p @ ''/'') = Clean p"
  by (simp add: Clean_def)

lemma Clean_length:
  assumes "p \<noteq> []"
  shows "length (Clean p) \<le> length p"
proof -
  obtain c q where p: "p = c # q" using assms by (cases p) auto
  let ?st = "clean_elems (IsAbs p) p"
  show ?thesis
  proof (cases "?st = []")
    case True
    with p show ?thesis by (auto simp: Clean_def Let_def split: if_splits)
  next
    case False
    then have len: "Suc (length (join_slash (rev ?st))) = weight ?st"
      using length_join_slash [of "rev ?st"] by simp
    show ?thesis
    proof (cases "c = CHR ''/''")
      case True
      with p have "weight ?st \<le> length p" using weight_clean_elems [of "IsAbs p" q] by simp
      with True len p show ?thesis by (simp add: Clean_def Let_def)
    next
      case False
      with \<open>?st \<noteq> []\<close> len p weight_clean_elems [of "IsAbs p" p] show ?thesis
        by (simp add: Clean_def Let_def)
    qed
  qed
qed

lemma Clean_Nil [simp]: "Clean [] = ''.''" and Clean_slash [simp]: "Clean ''/'' = ''/''"
  by (simp_all add: Clean_def clean_elems_def clean_step_def)

lemma Dir_dot [simp]: "Dir ''.'' = ''.''"
  by (simp add: Dir_def)

lemma Dir_progress: "Dir p = p \<or> Dir p = ''.'' \<or> length (Dir p) < length p"
proof (cases "LastIndexByte p CHR ''/''")
  case None
  then show ?thesis by (simp add: Dir_def)
next
  case (Some i)
  then obtain u r where p: "p = u @ CHR ''/'' # r" and i: "length u = i"
    using LastIndexByte_SomeD by blast
  with Some have dir: "Dir p = Clean (u @ ''/'')" by (simp add: Dir_def)
  show ?thesis
  proof (cases "u = []")
    case True
    with dir p show ?thesis by (cases r) simp_all
  next
    case False
    then have "length (Clean u) \<le> length u" by (rule Clean_length)
    with dir p False show ?thesis by (simp add: Clean_trailing_slash)
  qed
qed

lemma IsAbs_Clean [simp]: "IsAbs p \<Longrightarrow> IsAbs (Clean p)"
  by (cases p) (auto simp: Clean_def Let_def IsAbs_def HasPrefix_def)

text \<open>An absolute path leads up to the root.\<close>

lemma Dir_abs:
  assumes "IsAbs p"
  shows "IsAbs (Dir p) \<and> (Dir p = ''/'' \<or> length (Dir p) < length p)"
proof -
  obtain q where q: "p = CHR ''/'' # q" using assms by (cases p) (auto simp: IsAbs_def HasPrefix_def)
  then have "LastIndexByte p CHR ''/'' \<noteq> None"
    by (simp add: LastIndexByte_None_iff del: LastIndexByte.simps)
  then obtain u r where p: "p = u @ CHR ''/'' # r" and dir: "Dir p = Clean (u @ ''/'')"
    using LastIndexByte_SomeD by (fastforce simp: Dir_def)
  show ?thesis
  proof (cases "u = []")
    case True
    with dir show ?thesis by simp
  next
    case False
    with p assms have "IsAbs u" by simp
    with False dir p Clean_length [OF False] show ?thesis by (simp add: Clean_trailing_slash)
  qed
qed

end
