(* ===== verification/Proxy_Server.thy ===== *)
theory Proxy_Server
  imports Proxy_Session Proxy_Target_Health Go_Path
begin

text \<open>
  The sidecar's HTTP server, \<open>internal/proxy/server.go\<close>, and its \<open>main\<close>,
  \<open>cmd/ws-proxy/main.go\<close>: construction, routing, the two health handlers, the WebSocket
  handler with its deferred functions, start and shutdown. Handlers run concurrently; each
  is a program counter over the shared session manager and metrics. \<open>Acquire\<close> is one step
  here, which the theory of the session manager justifies.
\<close>

section \<open>Construction and routing\<close>

definition healthPath :: string where "healthPath = ''/health''"
definition targetHealthPath :: string where "targetHealthPath = ''/health/target''"
definition metricsPath :: string where "metricsPath = ''/metrics''"
definition capacityRetryAfterSeconds :: string where "capacityRetryAfterSeconds = ''5''"

datatype handler = HandleHealth | HandleTargetHealth | HandleMetrics | HandleWebSocket

record Server =
  srv_config :: Config
  sessionManager :: SessionManager
  target_health :: targetHealth
  mux :: "(string \<times> handler) list"
  addr :: string                        \<comment> \<open>\<open>httpServer.Addr\<close>\<close>

definition NewServer :: "Config \<Rightarrow> Server" where
  "NewServer c =
     \<lparr>srv_config = c, sessionManager = NewSessionManager (MaxConnections c),
      target_health = newTargetHealth,
      mux = [(healthPath, HandleHealth), (targetHealthPath, HandleTargetHealth),
             (metricsPath, HandleMetrics), (''/'', HandleWebSocket)],
      addr = ListenAddr c\<rparr>"

text \<open>
  \<open>http.ServeMux\<close>: a path that is not clean is redirected to its clean form; otherwise the
  longest pattern wins, where a pattern without a trailing slash matches only itself and one
  with it every path below.
\<close>

definition cleanPath :: "string \<Rightarrow> string" where
  "cleanPath p =
     (if p = '''' then ''/''
      else
        let p' = (if hd p = CHR ''/'' then p else CHR ''/'' # p); np = Clean p' in
        if last p' = CHR ''/'' \<and> np \<noteq> ''/'' then np @ ''/'' else np)"

definition pattern_matches :: "string \<Rightarrow> string \<Rightarrow> bool" where
  "pattern_matches pat p \<longleftrightarrow> p = pat \<or> pat \<noteq> '''' \<and> last pat = CHR ''/'' \<and> HasPrefix p pat"

definition longest :: "(string \<times> handler) list \<Rightarrow> (string \<times> handler) option" where
  "longest ps =
     foldr (\<lambda>p best. case best of None \<Rightarrow> Some p
                     | Some q \<Rightarrow> if length (fst q) \<le> length (fst p) then Some p else best) ps None"

datatype routed = Redirect string | Serve handler | NotFound

definition ServeHTTP :: "(string \<times> handler) list \<Rightarrow> string \<Rightarrow> routed" where
  "ServeHTTP m p =
     (if cleanPath p \<noteq> p then Redirect (cleanPath p)
      else
        case longest (filter (\<lambda>(pat, h). pattern_matches pat p) m) of
          None \<Rightarrow> NotFound
        | Some (pat, h) \<Rightarrow> Serve h)"

section \<open>The health handlers\<close>

record response =
  status :: nat
  headers :: "(string \<times> string) list"
  body :: string

definition handleHealth :: "SessionManager \<Rightarrow> response" where
  \<open>handleHealth sm =
     \<lparr>status = 200, headers = [(''Content-Type'', ''application/json'')],
      body = ''{"status":"ok","activeConnections":'' @ Itoa (sint (ActiveCount sm)) @ ''}''\<rparr>\<close>

definition handleTargetHealth :: "(nat \<Rightarrow> bool) \<Rightarrow> Config \<Rightarrow> targetHealth \<Rightarrow> response" where
  \<open>handleTargetHealth table c h =
     (let target = TargetAddr c; result = snapshot h;
          json = [(''Content-Type'', ''application/json'')] in
      if \<not> checked result then
        \<lparr>status = 503, headers = json,
         body = ''{"status":"unknown","target":'' @ Quote table target @ ''}''\<rparr>
      else if reachable result then
        \<lparr>status = 200, headers = json,
         body = ''{"status":"ok","target":'' @ Quote table target
           @ '',"checkedAt":'' @ Quote table (FormatRFC3339 (checkedAt result)) @ ''}''\<rparr>
      else
        \<lparr>status = 503, headers = json,
         body = ''{"status":"unreachable","target":'' @ Quote table target
           @ '',"checkedAt":'' @ Quote table (FormatRFC3339 (checkedAt result))
           @ '',"error":'' @ Quote table (herr result) @ ''}''\<rparr>)\<close>

section \<open>The WebSocket handler\<close>

datatype ws_pc =
    H_Idle
  | H_Acquire
  | H_Upgrade
  | H_Total | H_Active          \<comment> \<open>the two metrics of an accepted connection\<close>
  | H_Run                       \<comment> \<open>inside \<open>session.Run\<close>\<close>
  | H_Dec | H_CloseWS | H_Release   \<comment> \<open>the deferred functions, last registered first\<close>
  | H_Done response

definition tooMany :: response where
  "tooMany =
     \<lparr>status = 429, headers = [(''Retry-After'', capacityRetryAfterSeconds)],
      body = ''Too many concurrent connections'' @ [CHR 0x0A]\<rparr>"

text \<open>
  After an upgrade, failed or not, the response is the WebSocket library's; the handler
  writes none. \<open>hijacked\<close> stands for it.
\<close>

definition hijacked :: response where
  "hijacked = \<lparr>status = 0, headers = [], body = ''''\<rparr>"

record ws_server =
  pool :: SessionManager
  hpcs :: "nat \<Rightarrow> ws_pc"
  wlog :: metrics

definition ws_init :: "Config \<Rightarrow> ws_server \<Rightarrow> bool" where
  "ws_init c s \<longleftrightarrow> pool s = sessionManager (NewServer c) \<and> hpcs s = (\<lambda>_. H_Idle) \<and> wlog s = []"

text \<open>The metric calls a session makes are calls on other metrics than the handler's gauge.\<close>

definition session_log :: "metrics \<Rightarrow> bool" where
  "session_log m \<longleftrightarrow> ActiveConnections_Inc \<notin> set m \<and> ActiveConnections_Dec \<notin> set m"

inductive ws_step :: "ws_server \<Rightarrow> ws_server \<Rightarrow> bool" where
  request: "hpcs s i = H_Idle \<Longrightarrow> ws_step s (s\<lparr>hpcs := (hpcs s)(i := H_Acquire)\<rparr>)"
| refused: "hpcs s i = H_Acquire \<Longrightarrow> Acquire_spec (pool s) = (False, p) \<Longrightarrow>
    ws_step s (s\<lparr>pool := p, hpcs := (hpcs s)(i := H_Done tooMany),
                 wlog := wlog s @ [ConnectionErrors_Inc capacity_exceeded]\<rparr>)"
| acquired: "hpcs s i = H_Acquire \<Longrightarrow> Acquire_spec (pool s) = (True, p) \<Longrightarrow>
    ws_step s (s\<lparr>pool := p, hpcs := (hpcs s)(i := H_Upgrade)\<rparr>)"
| upgrade_err: "hpcs s i = H_Upgrade \<Longrightarrow>
    ws_step s (s\<lparr>hpcs := (hpcs s)(i := H_Release),
                 wlog := wlog s @ [ConnectionErrors_Inc upgrade_failed]\<rparr>)"
| upgraded: "hpcs s i = H_Upgrade \<Longrightarrow> ws_step s (s\<lparr>hpcs := (hpcs s)(i := H_Total)\<rparr>)"
| count_total: "hpcs s i = H_Total \<Longrightarrow>
    ws_step s (s\<lparr>hpcs := (hpcs s)(i := H_Active), wlog := wlog s @ [ConnectionsTotal_Inc]\<rparr>)"
| count_active: "hpcs s i = H_Active \<Longrightarrow>
    ws_step s (s\<lparr>hpcs := (hpcs s)(i := H_Run), wlog := wlog s @ [ActiveConnections_Inc]\<rparr>)"
| session_calls: "hpcs s i = H_Run \<Longrightarrow> session_log m \<Longrightarrow> ws_step s (s\<lparr>wlog := wlog s @ m\<rparr>)"
| session_ends: "hpcs s i = H_Run \<Longrightarrow> ws_step s (s\<lparr>hpcs := (hpcs s)(i := H_Dec)\<rparr>)"
| uncount: "hpcs s i = H_Dec \<Longrightarrow>
    ws_step s (s\<lparr>hpcs := (hpcs s)(i := H_CloseWS), wlog := wlog s @ [ActiveConnections_Dec]\<rparr>)"
| close_ws: "hpcs s i = H_CloseWS \<Longrightarrow> ws_step s (s\<lparr>hpcs := (hpcs s)(i := H_Release)\<rparr>)"
| released: "hpcs s i = H_Release \<Longrightarrow>
    ws_step s (s\<lparr>pool := Release (pool s), hpcs := (hpcs s)(i := H_Done hijacked)\<rparr>)"

text \<open>The program points at which a handler holds a slot, and at which the gauge counts it.\<close>

definition holding :: "ws_pc set" where
  "holding = {H_Upgrade, H_Total, H_Active, H_Run, H_Dec, H_CloseWS, H_Release}"

definition counted :: "ws_pc set" where
  "counted = {H_Run, H_Dec}"

definition ws_inv :: "Config \<Rightarrow> ws_server \<Rightarrow> bool" where
  "ws_inv c s \<longleftrightarrow>
     maxConnections (pool s) = word_of_int (MaxConnections c) \<and>
     finite (at (hpcs s) holding) \<and> finite (at (hpcs s) counted) \<and>
     sint (active (pool s)) = int (card (at (hpcs s) holding)) \<and>
     int (card (at (hpcs s) holding)) \<le> max 0 (sint (maxConnections (pool s))) \<and>
     active_gauge (wlog s) = int (card (at (hpcs s) counted))"

section \<open>Main\<close>

text \<open>The URL of \<open>--healthcheck\<close>, which exits 0 exactly when a request to it is answered 200.\<close>

definition healthcheck_url :: "env \<Rightarrow> string" where
  "healthcheck_url e =
     (let addr = Getenv e ''LISTEN_ADDR''; addr = (if addr = '''' then '':8080'' else addr);
          port = (case LastIndexByte addr CHR '':'' of Some i \<Rightarrow> drop i addr | None \<Rightarrow> addr)
      in ''http://127.0.0.1'' @ port @ ''/health'')"

text \<open>What ends the wait of \<open>main\<close>: a signal, then the error of the shutdown, or the server's end.\<close>

datatype main_end = Signalled "string option" | ServeEnded "string option"

definition proxy_main ::
    "string list \<Rightarrow> env \<Rightarrow> (string \<Rightarrow> nat option) \<Rightarrow> bool \<Rightarrow> main_end \<Rightarrow> nat" where
  "proxy_main args e get loggerFails me =
     (if 1 < length args \<and> args ! 1 = ''--healthcheck'' then
        (case get (healthcheck_url e) of None \<Rightarrow> 1 | Some st \<Rightarrow> if st \<noteq> 200 then 1 else 0)
      else if loggerFails then 1
      else
        case LoadConfig e of
          Err err \<Rightarrow> 1
        | Ok c \<Rightarrow>
            (case me of
               Signalled err \<Rightarrow> if err \<noteq> None then 1 else 0
             | ServeEnded err \<Rightarrow> if err \<noteq> None then 1 else 0))"

section \<open>Lemmas\<close>

lemma ws_inv_init: "ws_init c s \<Longrightarrow> ws_inv c s"
  by (simp add: ws_init_def ws_inv_def NewServer_def NewSessionManager_def at_def holding_def
      counted_def active_gauge_def)

lemma Acquire_spec_True:
  "Acquire_spec p = (True, q) \<Longrightarrow>
   q = p\<lparr>active := active p + 1\<rparr> \<and> sint (active p) < sint (maxConnections p)
   \<and> sint (active p + 1) = sint (active p) + 1"
  by (auto simp: Acquire_spec_def sint_succ split: if_splits)

lemma Acquire_spec_False: "Acquire_spec p = (False, q) \<Longrightarrow> q = p"
  by (auto simp: Acquire_spec_def split: if_splits)

lemma holding_positive: "hpcs s i \<in> P \<Longrightarrow> finite (at (hpcs s) P) \<Longrightarrow> 0 < card (at (hpcs s) P)"
  by (auto simp: card_gt_0_iff)

lemma session_log_gauge: "session_log m \<Longrightarrow> active_gauge m = 0"
  by (simp add: session_log_def active_gauge_def)

lemma active_gauge_calls:
  "active_gauge [ConnectionErrors_Inc r] = 0" "active_gauge [ConnectionsTotal_Inc] = 0"
  "active_gauge [ActiveConnections_Inc] = 1" "active_gauge [ActiveConnections_Dec] = -1"
  by (simp_all add: active_gauge_def)

lemma in_holding [simp]:
  "H_Idle \<notin> holding" "H_Acquire \<notin> holding" "H_Upgrade \<in> holding" "H_Total \<in> holding"
  "H_Active \<in> holding" "H_Run \<in> holding" "H_Dec \<in> holding" "H_CloseWS \<in> holding"
  "H_Release \<in> holding" "H_Done r \<notin> holding"
  by (simp_all add: holding_def)

lemma in_counted [simp]:
  "H_Idle \<notin> counted" "H_Acquire \<notin> counted" "H_Upgrade \<notin> counted" "H_Total \<notin> counted"
  "H_Active \<notin> counted" "H_Run \<in> counted" "H_Dec \<in> counted" "H_CloseWS \<notin> counted"
  "H_Release \<notin> counted" "H_Done r \<notin> counted"
  by (simp_all add: counted_def)

lemma ws_inv_step: "ws_step s t \<Longrightarrow> ws_inv c s \<Longrightarrow> ws_inv c t"
proof (induction rule: ws_step.induct)
  case (released s i)
  then have "0 < card (at (hpcs s) holding)"
    by (intro holding_positive [of s i]) (auto simp: ws_inv_def)
  with released show ?case
    by (auto simp: ws_inv_def card_at_move finite_at_upd Release_def sint_pred)
qed (auto simp: ws_inv_def card_at_move finite_at_upd active_gauge_calls
      session_log_gauge dest!: Acquire_spec_True Acquire_spec_False)

interpretation ws_sys: invariant_system "ws_init c" ws_step "ws_inv c" for c
  by unfold_locales (auto intro: ws_inv_init ws_inv_step)

text \<open>A handler in flight: it has taken the only slot.\<close>

definition ws_start :: ws_server where
  "ws_start = \<lparr>pool = NewSessionManager 10, hpcs = (\<lambda>_. H_Idle), wlog = []\<rparr>"

definition ws_running :: ws_server where
  "ws_running = \<lparr>pool = \<lparr>maxConnections = 10, active = 1\<rparr>, hpcs = (\<lambda>_. H_Idle)(0 := H_Run),
     wlog = [ConnectionsTotal_Inc, ActiveConnections_Inc]\<rparr>"

lemma MaxConnections_default: "MaxConnections (readConfig Map.empty) = 10"
  by code_simp

lemma reach_ws_start: "reach (ws_init (readConfig Map.empty)) ws_step ws_start"
  by (rule reach_init) (simp add: ws_init_def ws_start_def NewServer_def MaxConnections_default)

lemma reach_ws_running: "reach (ws_init (readConfig Map.empty)) ws_step ws_running"
proof -
  let ?p = "\<lparr>maxConnections = 10, active = 0\<rparr> :: SessionManager"
    and ?q = "\<lparr>maxConnections = 10, active = 1\<rparr> :: SessionManager"
  let ?s = "\<lambda>p pc l. \<lparr>pool = p, hpcs = (\<lambda>_. H_Idle)(0 := pc), wlog = l\<rparr> :: ws_server"
  have "ws_step ws_start (?s ?p H_Acquire [])"
    using ws_step.request [of ws_start 0] by (simp add: ws_start_def NewSessionManager_def)
  moreover have "ws_step (?s ?p H_Acquire []) (?s ?q H_Upgrade [])"
    using ws_step.acquired [of "?s ?p H_Acquire []" 0 ?q] by (simp add: Acquire_spec_def)
  moreover have "ws_step (?s ?q H_Upgrade []) (?s ?q H_Total [])"
    using ws_step.upgraded [of "?s ?q H_Upgrade []" 0] by simp
  moreover have "ws_step (?s ?q H_Total []) (?s ?q H_Active [ConnectionsTotal_Inc])"
    using ws_step.count_total [of "?s ?q H_Total []" 0] by simp
  moreover have "ws_step (?s ?q H_Active [ConnectionsTotal_Inc]) ws_running"
    using ws_step.count_active [of "?s ?q H_Active [ConnectionsTotal_Inc]" 0] by (simp add: ws_running_def)
  ultimately show ?thesis using reach_ws_start by (meson reach_step)
qed

text \<open>The sessions and bridges the handlers run make only such calls.\<close>

lemma session_log_simps [simp]:
  "session_log []" "session_log (xs @ ys) \<longleftrightarrow> session_log xs \<and> session_log ys"
  "session_log (x # xs) \<longleftrightarrow> x \<noteq> ActiveConnections_Inc \<and> x \<noteq> ActiveConnections_Dec \<and> session_log xs"
  by (auto simp: session_log_def)

lemma sess_step_log: "sess_step c s t \<Longrightarrow> session_log (slog s) \<Longrightarrow> session_log (slog t)"
  by (auto simp: sess_step_def elim!: sess_prog.cases sess_env.cases)

lemma sess_session_log: "reach sess_init (sess_step c) s \<Longrightarrow> session_log (slog s)"
  by (induction rule: reach.induct) (auto simp: sess_init_def sess_start_def intro: sess_step_log)

lemma Run_setup_session_log: "session_log (snd (Run_setup o'))"
  by (cases o') (simp_all add: Run_setup_def)

lemma copyWSToTCP_session_log: "session_log (blog b) \<Longrightarrow> session_log (blog (snd (copyWSToTCP ic rs b)))"
  by (induction ic rs b rule: copyWSToTCP.induct) (auto split: tcp_write.splits)

lemma copyTCPToWS_session_log: "session_log (blog b) \<Longrightarrow> session_log (blog (snd (copyTCPToWS rs b)))"
  by (induction rs b rule: copyTCPToWS.induct) (auto simp: WriteMessage_def split: ws_write.splits)

subsection \<open>Routing\<close>

lemma Clean_rooted: "\<exists>r. Clean (CHR ''/'' # p) = CHR ''/'' # r"
  by (simp add: Clean_def IsAbs_def HasPrefix_def Let_def)

lemma cleanPath_rooted: "\<exists>r. cleanPath p = CHR ''/'' # r"
proof (cases p)
  case (Cons c cs)
  obtain q where "(if hd p = CHR ''/'' then p else CHR ''/'' # p) = CHR ''/'' # q"
    using Cons by (cases "hd p = CHR ''/''") auto
  with Cons Clean_rooted [of q] show ?thesis by (auto simp: cleanPath_def Let_def)
qed (simp add: cleanPath_def)

lemma matches_root: "cleanPath p = p \<Longrightarrow> pattern_matches ''/'' p"
  using cleanPath_rooted [of p] by (auto simp: pattern_matches_def HasPrefix_def)

lemma matches_exact: "last pat \<noteq> CHR ''/'' \<Longrightarrow> pattern_matches pat p \<longleftrightarrow> p = pat"
  by (auto simp: pattern_matches_def)

section \<open>Properties\<close>



text \<open>
  Every request is routed as the server means it. A path that is not in clean form is
  redirected to the clean one; a clean one goes to the handler registered for exactly that
  path, and every other path to the WebSocket handler, so no request is answered
  \<open>not found\<close>.
\<close>

theorem NewServer_routes:
  "ServeHTTP (mux (NewServer c)) p =
     (if cleanPath p \<noteq> p then Redirect (cleanPath p)
      else if p = ''/health'' then Serve HandleHealth
      else if p = ''/health/target'' then Serve HandleTargetHealth
      else if p = ''/metrics'' then Serve HandleMetrics
      else Serve HandleWebSocket)"
proof (cases "cleanPath p = p")
  case True
  then show ?thesis
    by (auto simp: ServeHTTP_def NewServer_def healthPath_def targetHealthPath_def metricsPath_def
        longest_def matches_root matches_exact)
qed (simp add: ServeHTTP_def)

text \<open>
  C34: \<open>/health/target\<close> answers 200 exactly when the last recorded probe found the target
  reachable, and its body is a JSON object with the state, the dialled address, the time of
  the probe and, for an unreachable target, the error, provided host and error are printable
  ASCII text.
\<close>

theorem handleTargetHealth_json:
  assumes "printable (TargetHost c)" and "printable (herr h)"
  shows "(status (handleTargetHealth table c h) = 200 \<longleftrightarrow> checked h \<and> reachable h) \<and>
    json_object (body (handleTargetHealth table c h)) = Some
      ([(''status'', if \<not> checked h then ''unknown'' else if reachable h then ''ok'' else ''unreachable''),
        (''target'', TargetAddr c)]
       @ (if checked h then [(''checkedAt'', FormatRFC3339 (checkedAt h))] else [])
       @ (if checked h \<and> \<not> reachable h then [(''error'', herr h)] else []))"
proof -
  have "printable (Itoa (TargetPort c))" by (simp add: Itoa_def) (simp add: byte_def)
  with assms(1) have t: "printable (TargetAddr c)" by (simp add: TargetAddr_def) (simp add: byte_def)
  show ?thesis
    using t assms(2)
    by (auto simp: handleTargetHealth_def Let_def snapshot_def intro!: json_objectI [where n = 4])
      (simp_all add: eval_nat_numeral expect_def byte_def)
qed

theorem handleTargetHealth_json_witness:
  "json_object (body (handleTargetHealth (\<lambda>_. False) (readConfig Map.empty)
      \<lparr>checked = True, reachable = False, checkedAt = 0, herr = ''greeting [CHR 0x22]''\<rparr>))
   = Some [(''status'', ''unreachable''), (''target'', ''127.0.0.1:2222''),
           (''checkedAt'', ''1970-01-01T00:00:00Z''), (''error'', ''greeting [CHR 0x22]'')]"
proof -
  have "printable (TargetHost (readConfig Map.empty))" "printable ''greeting [CHR 0x22]''"
    "TargetAddr (readConfig Map.empty) = ''127.0.0.1:2222''" "FormatRFC3339 0 = ''1970-01-01T00:00:00Z''"
    by code_simp+
  then show ?thesis
    using handleTargetHealth_json [of "readConfig Map.empty"
        "\<lparr>checked = True, reachable = False, checkedAt = 0, herr = ''greeting [CHR 0x22]''\<rparr>" "\<lambda>_. False"]
    by simp
qed

text \<open>
  \<open>ws-proxy --healthcheck\<close> asks the port the server listens on: with the same
  environment, whatever host the listen address names and also when it is left to its
  default, the request goes to the port of the loaded configuration.
\<close>

theorem healthcheck_same_port:
  assumes "LoadConfig e = Ok c" and "ListenAddr c = host @ CHR '':'' # port" and "CHR '':'' \<notin> set port"
  shows "healthcheck_url e = ''http://127.0.0.1:'' @ port @ ''/health''"
proof -
  from assms(1) have "ListenAddr c = (if Getenv e ''LISTEN_ADDR'' = '''' then '':8080'' else Getenv e ''LISTEN_ADDR'')"
    by (simp add: LoadConfig_Ok_iff readConfig_def getEnv_def Let_def)
  with assms(2) have "(if Getenv e ''LISTEN_ADDR'' = '''' then '':8080'' else Getenv e ''LISTEN_ADDR'') = host @ CHR '':'' # port"
    by simp
  then show ?thesis unfolding healthcheck_url_def Let_def
    by (simp add: LastIndexByte_append [OF assms(3)])
qed

theorem healthcheck_same_port_witness:
  "healthcheck_url [''LISTEN_ADDR'' \<mapsto> ''[::]:9090''] = ''http://127.0.0.1:9090/health''"
proof -
  let ?e = "[''LISTEN_ADDR'' \<mapsto> ''[::]:9090'']"
  have "LoadConfig ?e = Ok (readConfig ?e)" "ListenAddr (readConfig ?e) = ''[::]'' @ CHR '':'' # ''9090''"
    by code_simp+
  from healthcheck_same_port [OF this] show ?thesis by simp
qed

end
