(* ===== verification/Proxy_Lifecycle.thy ===== *)
theory Proxy_Lifecycle
  imports Proxy_Server
begin

text \<open>
  \<open>ListenAndServe\<close> and \<open>Shutdown\<close> of \<open>internal/proxy/server.go\<close>, called by any number of
  goroutines: the first starts the target prober and then the HTTP server, the second stops the
  prober and then shuts the HTTP server down. The steps of the prober are those of
  \<open>Proxy_Target_Health\<close>; the \<open>i\<close>-th caller of \<open>ListenAndServe\<close> is its \<open>i\<close>-th starter and the \<open>j\<close>-th
  caller of \<open>Shutdown\<close> its \<open>j\<close>-th stopper. Of \<open>http.Server\<close> the model has what decides whether it
  accepts connections: the shutdown flag and the listeners it tracks.
\<close>

datatype serve_pc =
    V_Prober      \<comment> \<open>in \<open>startTargetProber\<close>\<close>
  | V_Serving     \<comment> \<open>in \<open>httpServer.ListenAndServe\<close>, accepting\<close>
  | V_Closed      \<comment> \<open>returned \<open>http.ErrServerClosed\<close>\<close>
  | V_Failed      \<comment> \<open>returned another error\<close>

datatype shut_pc =
    U_Prober      \<comment> \<open>in \<open>stopTargetProber\<close>\<close>
  | U_Draining    \<comment> \<open>in \<open>httpServer.Shutdown\<close>, listeners closed\<close>
  | U_Returned

record life =
  lprober :: prober
  serving :: "nat \<Rightarrow> serve_pc"
  shutting :: "nat \<Rightarrow> shut_pc"
  inShutdown :: bool
  tracked_listeners :: "nat set"

definition life_start :: life where
  "life_start = \<lparr>lprober = prober_start, serving = (\<lambda>_. V_Prober), shutting = (\<lambda>_. U_Prober),
     inShutdown = False, tracked_listeners = {}\<rparr>"

definition life_init :: "life \<Rightarrow> bool" where
  "life_init s \<longleftrightarrow> s = life_start"

inductive life_step :: "life \<Rightarrow> life \<Rightarrow> bool" where
  probing: "prober_step (lprober s) p \<Longrightarrow> life_step s (s\<lparr>lprober := p\<rparr>)"
  \<comment> \<open>\<open>ListenAndServe\<close>\<close>
| serve: "serving s i = V_Prober \<Longrightarrow> starters (lprober s) i = S_Done \<Longrightarrow> \<not> inShutdown s \<Longrightarrow>
    life_step s (s\<lparr>serving := (serving s)(i := V_Serving), tracked_listeners := insert i (tracked_listeners s)\<rparr>)"
| serve_refused: "serving s i = V_Prober \<Longrightarrow> starters (lprober s) i = S_Done \<Longrightarrow> inShutdown s \<Longrightarrow>
    life_step s (s\<lparr>serving := (serving s)(i := V_Closed)\<rparr>)"
| listen_fails: "serving s i = V_Prober \<Longrightarrow> starters (lprober s) i = S_Done \<Longrightarrow>
    life_step s (s\<lparr>serving := (serving s)(i := V_Failed)\<rparr>)"
| accept_fails: "serving s i = V_Serving \<Longrightarrow> \<not> inShutdown s \<Longrightarrow>
    life_step s (s\<lparr>serving := (serving s)(i := V_Failed), tracked_listeners := tracked_listeners s - {i}\<rparr>)"
| serve_ends: "serving s i = V_Serving \<Longrightarrow> inShutdown s \<Longrightarrow>
    life_step s (s\<lparr>serving := (serving s)(i := V_Closed)\<rparr>)"
  \<comment> \<open>\<open>Shutdown\<close>\<close>
| shut_http: "shutting s j = U_Prober \<Longrightarrow> stoppers (lprober s) j = X_Stopped \<or> stoppers (lprober s) j = X_Early \<Longrightarrow>
    life_step s (s\<lparr>shutting := (shutting s)(j := U_Draining), inShutdown := True, tracked_listeners := {}\<rparr>)"
| shut_returns: "shutting s j = U_Draining \<Longrightarrow>
    life_step s (s\<lparr>shutting := (shutting s)(j := U_Returned)\<rparr>)"

section \<open>Lemmas\<close>

definition life_inv :: "life \<Rightarrow> bool" where
  "life_inv s \<longleftrightarrow> reach prober_init prober_step (lprober s) \<and>
     (inShutdown s \<longrightarrow> tracked_listeners s = {}) \<and>
     (\<forall>j. shutting s j \<noteq> U_Prober \<longrightarrow> inShutdown s) \<and>
     (\<forall>i \<in> tracked_listeners s. starters (lprober s) i = S_Done)"

lemma starter_done: "prober_step p q \<Longrightarrow> starters p i = S_Done \<Longrightarrow> starters q i = S_Done"
  by (erule prober_step.cases) auto

lemma life_inv_step: "life_inv s \<Longrightarrow> life_step s t \<Longrightarrow> life_inv t"
  unfolding life_inv_def
  by (erule life_step.cases) (auto intro: reach_step starter_done split: if_splits)

interpretation life_sys: invariant_system life_init life_step life_inv
proof unfold_locales
  show "life_inv s" if "life_init s" for s
    using that reach_prober_start by (simp add: life_init_def life_inv_def life_start_def)
qed (rule life_inv_step)

text \<open>To the prober, a run of the server is a run of its own.\<close>

lemma life_prober: "life_step\<^sup>*\<^sup>* s t \<Longrightarrow> prober_step\<^sup>*\<^sup>* (lprober s) (lprober t)"
  by (induction rule: rtranclp_induct)
    (auto elim!: life_step.cases intro: rtranclp.rtrancl_into_rtrancl)

lemma life_shutdown: "life_step\<^sup>*\<^sup>* s t \<Longrightarrow> inShutdown s \<Longrightarrow> inShutdown t"
  by (induction rule: rtranclp_induct) (auto elim!: life_step.cases)

text \<open>A run that only stops the prober and shuts the server down.\<close>

lemma reach_life_down:
  "\<exists>s. reach life_init life_step s \<and> stoppers (lprober s) 0 = X_Stopped \<and> shutting s 0 = U_Draining"
proof -
  obtain p where p: "reach prober_init prober_step p" "stoppers p 0 = X_Stopped"
    using reach_stopped by blast
  from p(1) have "reach life_init life_step (life_start\<lparr>lprober := p\<rparr>)"
  proof (induction rule: reach.induct)
    case (reach_init p)
    then show ?case by (simp add: prober_init_def reach.reach_init life_init_def life_start_def)
  next
    case (reach_step p q)
    then have "life_step (life_start\<lparr>lprober := p\<rparr>) (life_start\<lparr>lprober := p\<rparr>\<lparr>lprober := q\<rparr>)"
      by (intro life_step.probing) simp
    with reach_step.IH show ?case by (auto intro: reach.reach_step)
  qed
  moreover have "life_step (life_start\<lparr>lprober := p\<rparr>) (life_start\<lparr>lprober := p, shutting := (\<lambda>_. U_Prober)(0 := U_Draining),
      inShutdown := True, tracked_listeners := {}\<rparr>)"
    using life_step.shut_http [of "life_start\<lparr>lprober := p\<rparr>" 0] p(2) by (simp add: life_start_def)
  ultimately have "reach life_init life_step (life_start\<lparr>lprober := p, shutting := (\<lambda>_. U_Prober)(0 := U_Draining),
      inShutdown := True, tracked_listeners := {}\<rparr>)" by (rule reach_step)
  with p(2) show ?thesis by (intro exI conjI) (assumption, simp_all)
qed

section \<open>Properties\<close>



end
