(* ===== verification/SSH_Shell.thy ===== *)
theory SSH_Shell
  imports Env_Reader "HOL-Library.AList"
begin

text \<open>
  The shell of a session, \<open>internal/sshserver/shell.go\<close>: its command line, the choice of the
  shell, and its environment. An environment is a list of entries \<open>key=value\<close>, as the system
  has it. The order in which Go walks a map is not specified; it is an argument, a
  function that permutes the keys. The password database and \<open>os.Stat\<close> are arguments too.
\<close>

definition shellBash :: string where "shellBash = ''/bin/bash''"
definition shellSh :: string where "shellSh = ''/bin/sh''"
definition envHome :: string where "envHome = ''HOME''"
definition envUser :: string where "envUser = ''USER''"
definition envLogname :: string where "envLogname = ''LOGNAME''"

subsection \<open>The command\<close>

text \<open>The arguments of \<open>exec.Command\<close>, the program first.\<close>

definition buildShellCommand :: "string \<Rightarrow> bool \<Rightarrow> string \<Rightarrow> string list" where
  "buildShellCommand shell loginShell rawCmd =
     (if TrimSpace rawCmd = '''' then
        (if loginShell then [shell, ''-l''] else [shell])
      else if loginShell then [shell, ''-lc'', rawCmd]
      else [shell, ''-c'', rawCmd])"

text \<open>What \<open>os.Stat\<close> tells: \<open>None\<close> for an error, otherwise whether it is a directory.\<close>

type_synonym stat = "string \<Rightarrow> bool option"

definition usable :: "stat \<Rightarrow> string \<Rightarrow> bool" where
  "usable stat candidate \<longleftrightarrow> candidate \<noteq> '''' \<and> stat candidate = Some False"

definition resolveShell :: "stat \<Rightarrow> env \<Rightarrow> string" where
  "resolveShell stat env =
     (case find (usable stat) [Getenv env ''SHELL'', shellBash, shellSh] of
        Some candidate \<Rightarrow> candidate
      | None \<Rightarrow> shellSh)"

subsection \<open>The environment\<close>

definition entry :: "string \<times> string \<Rightarrow> string" where
  "entry kv = fst kv @ CHR ''='' # snd kv"

definition merge_entry :: "(string \<times> string) list \<Rightarrow> string \<Rightarrow> (string \<times> string) list" where
  "merge_entry merged e =
     (case Cut e CHR ''='' of None \<Rightarrow> merged | Some (key, val) \<Rightarrow> AList.update key val merged)"

definition mergeEnv ::
    "((string \<times> string) list \<Rightarrow> (string \<times> string) list) \<Rightarrow> string list \<Rightarrow> string list \<Rightarrow> string list" where
  "mergeEnv walk environ sessionEnv =
     map entry (walk (foldl merge_entry [] (environ @ sessionEnv)))"

fun lookupEnv :: "string list \<Rightarrow> string \<Rightarrow> string option" where
  "lookupEnv [] key = None"
| "lookupEnv (e # env) key =
     (if HasPrefix e (key @ ''='') then Some (TrimPrefix e (key @ ''='')) else lookupEnv env key)"

record passwd =
  HomeDir :: string
  Username :: string

definition withPasswdFallback :: "passwd option \<Rightarrow> string list \<Rightarrow> string list" where
  "withPasswdFallback current env =
     (let hasHome = lookupEnv env envHome \<noteq> None;
          hasUser = lookupEnv env envUser \<noteq> None;
          hasLogname = lookupEnv env envLogname \<noteq> None in
      if hasHome \<and> hasUser \<and> hasLogname then env
      else
        case current of
          None \<Rightarrow> env
        | Some pw \<Rightarrow>
            let env = (if \<not> hasHome \<and> HomeDir pw \<noteq> '''' then env @ [entry (envHome, HomeDir pw)] else env) in
            if Username pw \<noteq> '''' then
              let env = (if \<not> hasUser then env @ [entry (envUser, Username pw)] else env) in
              if \<not> hasLogname then env @ [entry (envLogname, Username pw)] else env
            else env)"

definition sessionWorkingDir :: "stat \<Rightarrow> string list \<Rightarrow> string" where
  "sessionWorkingDir stat env =
     (case lookupEnv env envHome of
        None \<Rightarrow> ''''
      | Some home \<Rightarrow>
          if home = '''' then ''''
          else if stat home \<noteq> Some True then ''''
          else home)"

text \<open>What is known of a map's iteration: every pair once, in some order.\<close>

definition walks :: "(('a \<times> 'b) list \<Rightarrow> ('a \<times> 'b) list) \<Rightarrow> bool" where
  "walks walk \<longleftrightarrow> (\<forall>ps. distinct ps \<longrightarrow> distinct (walk ps) \<and> set (walk ps) = set ps)"

text \<open>The specification of the merge: the last entry for a key counts.\<close>

fun last_value :: "string list \<Rightarrow> string \<Rightarrow> string option" where
  "last_value [] key = None"
| "last_value (e # es) key =
     (case last_value es key of
        Some v \<Rightarrow> Some v
      | None \<Rightarrow>
          (case Cut e CHR ''='' of
             None \<Rightarrow> None
           | Some (k, v) \<Rightarrow> if k = key then Some v else None))"

section \<open>Lemmas\<close>

lemma last_value_append:
  "last_value (xs @ ys) key = (case last_value ys key of Some v \<Rightarrow> Some v | None \<Rightarrow> last_value xs key)"
  by (induction xs) (auto split: option.splits)

lemma map_of_merge_entry:
  "map_of (merge_entry m e) key =
     (case Cut e CHR ''='' of
        None \<Rightarrow> map_of m key
      | Some (k, v) \<Rightarrow> if k = key then Some v else map_of m key)"
  by (auto simp: merge_entry_def update_conv' split: option.splits)

lemma map_of_foldl_merge:
  "map_of (foldl merge_entry m es) key =
     (case last_value es key of Some v \<Rightarrow> Some v | None \<Rightarrow> map_of m key)"
  by (induction es arbitrary: m) (auto simp: map_of_merge_entry split: option.splits)

lemma distinct_merge_entry: "distinct (map fst m) \<Longrightarrow> distinct (map fst (merge_entry m e))"
  by (auto simp: merge_entry_def distinct_update split: option.splits)

lemma distinct_foldl_merge: "distinct (map fst m) \<Longrightarrow> distinct (map fst (foldl merge_entry m es))"
  by (induction es arbitrary: m) (auto intro: distinct_merge_entry)

lemma keys_merge_entry:
  "\<forall>k \<in> fst ` set m. CHR ''='' \<notin> set k \<Longrightarrow> \<forall>k \<in> fst ` set (merge_entry m e). CHR ''='' \<notin> set k"
  using dom_update [of _ _ m]
  by (auto simp: merge_entry_def dom_map_of_conv_image_fst [symmetric] dest: Cut_SomeD split: option.splits)

lemma keys_foldl_merge:
  "\<forall>k \<in> fst ` set m. CHR ''='' \<notin> set k \<Longrightarrow> \<forall>k \<in> fst ` set (foldl merge_entry m es). CHR ''='' \<notin> set k"
proof (induction es arbitrary: m)
  case (Cons e es)
  from Cons.IH [OF keys_merge_entry [OF Cons.prems]] show ?case by simp
qed simp

lemma HasPrefix_entry:
  assumes "CHR ''='' \<notin> set k" and "CHR ''='' \<notin> set key"
  shows "HasPrefix (entry (k, v)) (key @ ''='') \<longleftrightarrow> k = key"
proof
  assume "HasPrefix (entry (k, v)) (key @ ''='')"
  then obtain t where "k @ CHR ''='' # v = key @ CHR ''='' # t"
    by (auto simp: HasPrefix_iff entry_def)
  with assms show "k = key" by (metis Cut_append Pair_inject option.inject)
qed (simp add: entry_def HasPrefix_iff)

lemma TrimPrefix_entry [simp]: "TrimPrefix (entry (key, v)) (key @ ''='') = v"
  using TrimPrefix_append [of "key @ ''=''" v] by (simp add: entry_def)

lemma lookupEnv_entries:
  "\<forall>k \<in> fst ` set ps. CHR ''='' \<notin> set k \<Longrightarrow> CHR ''='' \<notin> set key \<Longrightarrow>
   lookupEnv (map entry ps) key = map_of ps key"
  by (induction ps) (auto simp: HasPrefix_entry)

lemma walks_map_of:
  assumes "walks walk" and "distinct (map fst ps)"
  shows "map_of (walk ps) = map_of ps" and "distinct (map fst (walk ps))" and "set (walk ps) = set ps"
proof -
  have "distinct ps" using assms(2) by (simp add: distinct_map)
  with assms(1) have w: "distinct (walk ps)" "set (walk ps) = set ps" by (auto simp: walks_def)
  then show "set (walk ps) = set ps" by simp
  have "inj_on fst (set (walk ps))" using assms(2) w(2) by (simp add: distinct_map)
  with w(1) show d: "distinct (map fst (walk ps))" by (simp add: distinct_map)
  from map_of_inject_set [OF d assms(2)] w(2) show "map_of (walk ps) = map_of ps" by simp
qed

lemma lookupEnv_mergeEnv:
  assumes "walks walk" and "CHR ''='' \<notin> set key"
  shows "lookupEnv (mergeEnv walk environ sessionEnv) key = last_value (environ @ sessionEnv) key"
proof -
  let ?m = "foldl merge_entry [] (environ @ sessionEnv)"
  have d: "distinct (map fst ?m)" by (rule distinct_foldl_merge) simp
  note w = walks_map_of [OF assms(1) d]
  have "\<forall>k \<in> fst ` set (walk ?m). CHR ''='' \<notin> set k" unfolding w(3) by (rule keys_foldl_merge) simp
  from lookupEnv_entries [OF this assms(2)] show ?thesis
    by (simp add: mergeEnv_def w(1) map_of_foldl_merge del: foldl_append split: option.splits)
qed

lemma lookupEnv_append:
  "lookupEnv (xs @ ys) key = (case lookupEnv xs key of Some v \<Rightarrow> Some v | None \<Rightarrow> lookupEnv ys key)"
  by (induction xs) auto

lemma lookupEnv_singleton:
  "CHR ''='' \<notin> set k \<Longrightarrow> CHR ''='' \<notin> set key \<Longrightarrow> lookupEnv [entry (k, v)] key = (if k = key then Some v else None)"
  by (auto simp: HasPrefix_entry)

text \<open>The entries the fallback adds.\<close>

definition missing :: "string list \<Rightarrow> string \<Rightarrow> string \<Rightarrow> string list" where
  "missing env key val = (if lookupEnv env key = None \<and> val \<noteq> [] then [entry (key, val)] else [])"

lemma withPasswdFallback_append:
  "withPasswdFallback current env = env @
     (case current of
        None \<Rightarrow> []
      | Some pw \<Rightarrow> missing env envHome (HomeDir pw) @ missing env envUser (Username pw)
                   @ missing env envLogname (Username pw))"
  by (cases current) (simp_all add: withPasswdFallback_def missing_def Let_def)

lemma account_keys: "CHR ''='' \<notin> set envHome" "CHR ''='' \<notin> set envUser" "CHR ''='' \<notin> set envLogname"
  "envHome \<noteq> envUser" "envHome \<noteq> envLogname" "envUser \<noteq> envLogname"
  by (simp_all add: envHome_def envUser_def envLogname_def)

lemma lookupEnv_missing:
  "CHR ''='' \<notin> set k \<Longrightarrow> CHR ''='' \<notin> set key \<Longrightarrow>
   lookupEnv (missing env k v) key = (if k = key \<and> lookupEnv env k = None \<and> v \<noteq> [] then Some v else None)"
  by (auto simp: missing_def lookupEnv_singleton simp del: lookupEnv.simps(2))

lemma fallback_lookup:
  assumes "CHR ''='' \<notin> set key"
  shows "lookupEnv (withPasswdFallback current env) key =
    (case lookupEnv env key of
       Some v \<Rightarrow> Some v
     | None \<Rightarrow>
         (case current of
            None \<Rightarrow> None
          | Some pw \<Rightarrow>
              if key = envHome \<and> HomeDir pw \<noteq> '''' then Some (HomeDir pw)
              else if key \<in> {envUser, envLogname} \<and> Username pw \<noteq> '''' then Some (Username pw)
              else None))"
proof (cases "lookupEnv env key")
  case None
  then show ?thesis
    using account_keys lookupEnv_missing [OF account_keys(1) assms] lookupEnv_missing [OF account_keys(2) assms]
      lookupEnv_missing [OF account_keys(3) assms]
    by (cases current) (auto simp: withPasswdFallback_append lookupEnv_append)
next
  case (Some v)
  then show ?thesis by (simp add: withPasswdFallback_append lookupEnv_append)
qed

lemma last_value_SomeD: "last_value es key = Some v \<Longrightarrow> \<exists>e \<in> set es. Cut e CHR ''='' = Some (key, v)"
  by (induction es) (auto split: option.splits if_splits)

section \<open>Properties\<close>

text \<open>
  C30: the environment of a session. Whatever order the map is walked in, a variable has the
  last value the client sent for it, else the last value of the server's own environment;
  \<open>HOME\<close>, \<open>USER\<close> and \<open>LOGNAME\<close>, where neither has them, come from a nonempty field of the
  password database; and no other variable is added.
\<close>

theorem session_environment:
  assumes "walks walk" and "CHR ''='' \<notin> set key"
  shows "lookupEnv (withPasswdFallback current (mergeEnv walk environ sessionEnv)) key =
    (case last_value sessionEnv key of
       Some v \<Rightarrow> Some v
     | None \<Rightarrow>
         (case last_value environ key of
            Some v \<Rightarrow> Some v
          | None \<Rightarrow>
              (case current of
                 None \<Rightarrow> None
               | Some pw \<Rightarrow>
                   if key = envHome \<and> HomeDir pw \<noteq> '''' then Some (HomeDir pw)
                   else if key \<in> {envUser, envLogname} \<and> Username pw \<noteq> '''' then Some (Username pw)
                   else None)))"
  unfolding fallback_lookup [OF assms(2)] lookupEnv_mergeEnv [OF assms] last_value_append
  by (simp split: option.split)

theorem session_environment_witness:
  "lookupEnv (withPasswdFallback (Some \<lparr>HomeDir = ''/home/u'', Username = ''u''\<rparr>)
     (mergeEnv rev [''PATH=/bin'', ''LANG=C''] [''LANG=de=DE''])) ''LANG'' = Some ''de=DE''
   \<and> lookupEnv (withPasswdFallback (Some \<lparr>HomeDir = ''/home/u'', Username = ''u''\<rparr>)
     (mergeEnv rev [''PATH=/bin'', ''LANG=C''] [''LANG=de=DE''])) ''HOME'' = Some ''/home/u''"
proof -
  have "walks (rev :: (string \<times> string) list \<Rightarrow> _)" by (simp add: walks_def)
  then show ?thesis
    by (simp add: session_environment Cut_def envHome_def envUser_def envLogname_def)
qed

text \<open>
  The merged environment defines every variable once, so no later reader can see another
  value than the first one does.
\<close>

theorem mergeEnv_distinct:
  assumes "walks walk"
  shows "distinct (map (\<lambda>e. fst (the (Cut e CHR ''=''))) (mergeEnv walk environ sessionEnv))
    \<and> (\<forall>e \<in> set (mergeEnv walk environ sessionEnv). Cut e CHR ''='' \<noteq> None)"
proof -
  let ?m = "foldl merge_entry [] (environ @ sessionEnv)"
  have d: "distinct (map fst ?m)" by (rule distinct_foldl_merge) simp
  note w = walks_map_of [OF assms d]
  have "\<forall>k \<in> fst ` set (walk ?m). CHR ''='' \<notin> set k" unfolding w(3) by (rule keys_foldl_merge) simp
  then have cut: "Cut (entry kv) CHR ''='' = Some kv" if "kv \<in> set (walk ?m)" for kv
    using that by (cases kv) (auto simp: entry_def Cut_append)
  then have "map (\<lambda>e. fst (the (Cut e CHR ''=''))) (mergeEnv walk environ sessionEnv) = map fst (walk ?m)"
    by (simp add: mergeEnv_def del: foldl_append)
  with w(2) have "distinct (map (\<lambda>e. fst (the (Cut e CHR ''=''))) (mergeEnv walk environ sessionEnv))"
    by simp
  moreover from cut have "\<forall>e \<in> set (mergeEnv walk environ sessionEnv). Cut e CHR ''='' \<noteq> None"
    by (auto simp: mergeEnv_def simp del: foldl_append)
  ultimately show ?thesis ..
qed

theorem mergeEnv_distinct_witness:
  "distinct (map (\<lambda>e. fst (the (Cut e CHR ''=''))) (mergeEnv (\<lambda>ps. ps) [''A=1'', ''A=2''] [''A=3'']))"
  using mergeEnv_distinct [of "\<lambda>ps. ps" "[''A=1'', ''A=2'']" "[''A=3'']"] by (simp add: walks_def)


end
