(* ===== verification/SSH_Session.thy ===== *)
theory SSH_Session
  imports Transition SSH_Shell "HOL-Library.Word"
begin

unbundle bit_operations_syntax

text \<open>
  One shell or exec session of the SSH server, from \<open>internal/sshserver/server.go\<close>:
  the exit status (\<open>exitCode\<close>), the terminal size (\<open>setWinsize\<close>) and, as a step relation,
  \<open>runWithPty\<close>, \<open>runWithoutPty\<close>, \<open>finish\<close>, \<open>sessionCmd\<close>, \<open>watchWindowSize\<close> and
  \<open>terminateOnDisconnect\<close> with the goroutines they start. \<open>run_step\<close> are the steps of the
  server's goroutines, \<open>env_step\<close> those of the client, the kernel and the session's processes.
\<close>

section \<open>Exit status\<close>

definition exitCodeGeneralError :: int where "exitCodeGeneralError = 1"
definition exitCodeCommandNotExecutable :: int where "exitCodeCommandNotExecutable = 127"
definition signalExitCodeBase :: int where "signalExitCodeBase = 128"

text \<open>\<open>syscall.WaitStatus\<close> on Linux, a \<open>uint32\<close>.\<close>

definition Exited :: "32 word \<Rightarrow> bool" where
  "Exited w \<longleftrightarrow> w AND 0x7F = 0"

definition ExitStatus :: "32 word \<Rightarrow> int" where
  "ExitStatus w = (if Exited w then uint (drop_bit 8 w AND 0xFF) else - 1)"

definition Signaled :: "32 word \<Rightarrow> bool" where
  "Signaled w \<longleftrightarrow> w AND 0x7F \<noteq> 0x7F \<and> w AND 0x7F \<noteq> 0"

definition Signal_of :: "32 word \<Rightarrow> int" where
  "Signal_of w = (if Signaled w then uint (w AND 0x7F) else - 1)"

text \<open>
  \<open>exec.Cmd.Wait\<close>: an unsuccessful status is an \<open>ExitError\<close>; otherwise the error of a
  goroutine that copies output, if any, is returned.
\<close>

datatype wait_error = ExitError "32 word" | CopyError string

definition Cmd_Wait :: "32 word \<Rightarrow> string option \<Rightarrow> wait_error option" where
  "Cmd_Wait st copyErr =
     (if ExitStatus st \<noteq> 0 then Some (ExitError st) else map_option CopyError copyErr)"

definition exitCode :: "wait_error option \<Rightarrow> int" where
  "exitCode err =
     (case err of
        None \<Rightarrow> 0
      | Some (CopyError e) \<Rightarrow> exitCodeGeneralError
      | Some (ExitError st) \<Rightarrow>
          if 0 \<le> ExitStatus st then ExitStatus st
          else if Signaled st then signalExitCodeBase + Signal_of st
          else exitCodeGeneralError)"

section \<open>Terminal\<close>

record Window =
  Width :: int
  Height :: int

record Winsize =
  Rows :: "16 word"
  Cols :: "16 word"

definition setWinsize :: "Window \<Rightarrow> Winsize" where
  "setWinsize win = \<lparr>Rows = word_of_int (Height win), Cols = word_of_int (Width win)\<rparr>"

text \<open>The environment of a command on a terminal.\<close>

definition ptyEnv :: "string list \<Rightarrow> string \<Rightarrow> string list" where
  "ptyEnv env term = env @ [''TERM='' @ term, ''COLORTERM=truecolor'']"

section \<open>State\<close>

datatype signal = SIGHUP | SIGKILL

text \<open>
  The process the session started. The kernel keeps a process that has exited until \<open>Wait\<close>
  reaps it, and may reuse its PID from then on, unless a process group still has it as its id.
\<close>

datatype process = P_None | P_Running | P_Zombie "32 word" | P_Reaped "32 word"

datatype shell_pc =
    M_Start
  | M_Size           \<comment> \<open>\<open>setWinsize\<close>\<close>
  | M_Resize         \<comment> \<open>\<open>watchWindowSize\<close>\<close>
  | M_Input          \<comment> \<open>starts the goroutine that copies the input\<close>
  | M_Copy           \<comment> \<open>\<open>io.Copy(session, f)\<close>\<close>
  | M_Stop           \<comment> \<open>\<open>close(stopResize)\<close>\<close>
  | M_Join           \<comment> \<open>\<open><-resizeDone\<close>\<close>
  | M_Close          \<comment> \<open>\<open>f.Close()\<close>\<close>
  | M_Wait           \<comment> \<open>in \<open>cmd.Wait\<close>, the process not reaped\<close>
  | M_Copies         \<comment> \<open>in \<open>cmd.Wait\<close>, reaped, the output still being copied\<close>
  | M_Mark           \<comment> \<open>\<open>cmd.Wait\<close> has returned\<close>
  | M_Exit           \<comment> \<open>\<open>session.Exit(code)\<close>\<close>
  | M_Cancel         \<comment> \<open>\<open>stopWatch\<close>: \<open>close(done)\<close>\<close>
  | M_Finished       \<comment> \<open>\<open>stopWatch\<close>: \<open><-finished\<close>\<close>
  | M_Returned
  | M_Failed         \<comment> \<open>returned, no process was started\<close>

datatype watch_pc = T_None | T_Select | T_Hangup | T_Grace | T_Kill | T_Close | T_Done

datatype resize_pc = Z_None | Z_Select | Z_Set Window | Z_Close | Z_Done

datatype input_pc = I_None | I_Copy | I_Close | I_Done

record shell =
  isPty :: bool
  main :: shell_pc
  watch :: watch_pc
  resize :: resize_pc
  input :: input_pc
  proc :: process
  bg :: bool                \<comment> \<open>other processes are in the group\<close>
  bg_out :: bool            \<comment> \<open>one of them has the output open\<close>
  esc_out :: bool           \<comment> \<open>a process outside the group has it open\<close>
  master_open :: bool       \<comment> \<open>the pty master \<open>f\<close>\<close>
  stdin_open :: bool        \<comment> \<open>the pipe to the command\<close>
  stopResize :: bool        \<comment> \<open>closed channels\<close>
  resizeDone :: bool
  done_closed :: bool
  finished_closed :: bool
  reaped :: bool
  waited :: "wait_error option"
  exits :: "int list"       \<comment> \<open>the calls of \<open>session.Exit\<close>\<close>
  signals :: "(signal \<times> shell_pc \<times> bool) list"
                            \<comment> \<open>each \<open>kill(-pid)\<close>, newest first: where the main goroutine was and whether the group existed\<close>
  sizes :: "(Winsize \<times> bool) list"
                            \<comment> \<open>each resize, newest first, and whether the master was open\<close>
  windows :: "Window list"  \<comment> \<open>sizes the client sent, not yet received\<close>
  hung_up :: bool           \<comment> \<open>\<open>session.Context()\<close> is done\<close>

definition shell_start :: "bool \<Rightarrow> shell" where
  "shell_start p =
     \<lparr>isPty = p, main = M_Start, watch = T_None, resize = Z_None, input = I_None, proc = P_None,
      bg = False, bg_out = False, esc_out = False, master_open = False, stdin_open = False,
      stopResize = False, resizeDone = False, done_closed = False, finished_closed = False,
      reaped = False, waited = None, exits = [], signals = [], sizes = [], windows = [], hung_up = False\<rparr>"

definition shell_init :: "shell \<Rightarrow> bool" where
  "shell_init s \<longleftrightarrow> s = shell_start (isPty s)"

text \<open>The output ends when no process has it open.\<close>

definition out_held :: "shell \<Rightarrow> bool" where
  "out_held s \<longleftrightarrow> proc s = P_Running \<or> bg_out s \<or> esc_out s"

definition group_exists :: "shell \<Rightarrow> bool" where
  "group_exists s \<longleftrightarrow> bg s \<or> (case proc s of P_Running \<Rightarrow> True | P_Zombie st \<Rightarrow> True | _ \<Rightarrow> False)"

text \<open>
  \<open>signalGroup\<close>, one step under the mutex that also guards \<open>reaped\<close>. A process may ignore
  \<open>SIGHUP\<close>; \<open>SIGKILL\<close> ends the whole group.
\<close>

definition signalGroup :: "signal \<Rightarrow> shell \<Rightarrow> shell" where
  "signalGroup sig s =
     (if reaped s \<or> proc s = P_None then s
      else
        let s' = s\<lparr>signals := (sig, main s, group_exists s) # signals s\<rparr> in
        if sig = SIGKILL then
          s'\<lparr>proc := (if proc s = P_Running then P_Zombie 9 else proc s), bg := False, bg_out := False\<rparr>
        else s')"

section \<open>Steps of the server\<close>

text \<open>The steps of \<open>runWithPty\<close>.\<close>

inductive pty_step :: "shell \<Rightarrow> shell \<Rightarrow> bool" where
  pty_fails: "main s = M_Start \<Longrightarrow> isPty s \<Longrightarrow>
    pty_step s (s\<lparr>exits := exits s @ [exitCodeGeneralError], main := M_Failed\<rparr>)"
| pty_starts: "main s = M_Start \<Longrightarrow> isPty s \<Longrightarrow>
    pty_step s (s\<lparr>proc := P_Running, master_open := True, watch := T_Select, main := M_Size\<rparr>)"
| first_size: "main s = M_Size \<Longrightarrow>
    pty_step s (s\<lparr>sizes := (setWinsize win, master_open s) # sizes s, main := M_Resize\<rparr>)"
| spawn_resize: "main s = M_Resize \<Longrightarrow> pty_step s (s\<lparr>resize := Z_Select, main := M_Input\<rparr>)"
| spawn_pty_input: "main s = M_Input \<Longrightarrow> isPty s \<Longrightarrow> pty_step s (s\<lparr>input := I_Copy, main := M_Copy\<rparr>)"
| copy_eof: "main s = M_Copy \<Longrightarrow> \<not> out_held s \<Longrightarrow> pty_step s (s\<lparr>main := M_Stop\<rparr>)"
| stop_resize: "main s = M_Stop \<Longrightarrow> pty_step s (s\<lparr>stopResize := True, main := M_Join\<rparr>)"
| join_resize: "main s = M_Join \<Longrightarrow> resizeDone s \<Longrightarrow> pty_step s (s\<lparr>main := M_Close\<rparr>)"
| close_master: "main s = M_Close \<Longrightarrow> pty_step s (s\<lparr>master_open := False, main := M_Wait\<rparr>)"

text \<open>\<open>runWithoutPty\<close>, and the goroutine that copies the input.\<close>

inductive plain_step :: "shell \<Rightarrow> shell \<Rightarrow> bool" where
  pipe_fails: "main s = M_Start \<Longrightarrow> \<not> isPty s \<Longrightarrow>
    plain_step s (s\<lparr>exits := exits s @ [exitCodeGeneralError], main := M_Failed\<rparr>)"
| start_fails: "main s = M_Start \<Longrightarrow> \<not> isPty s \<Longrightarrow>
    plain_step s (s\<lparr>exits := exits s @ [exitCodeCommandNotExecutable], main := M_Failed\<rparr>)"
| plain_starts: "main s = M_Start \<Longrightarrow> \<not> isPty s \<Longrightarrow>
    plain_step s (s\<lparr>proc := P_Running, stdin_open := True, watch := T_Select, main := M_Input\<rparr>)"
| spawn_plain_input: "main s = M_Input \<Longrightarrow> \<not> isPty s \<Longrightarrow> plain_step s (s\<lparr>input := I_Copy, main := M_Wait\<rparr>)"
| close_stdin: "input s = I_Close \<Longrightarrow> plain_step s (s\<lparr>stdin_open := False, input := I_Done\<rparr>)"

text \<open>\<open>sessionCmd.wait\<close>: \<open>cmd.Wait\<close>, then the flag.\<close>

inductive wait_step :: "shell \<Rightarrow> shell \<Rightarrow> bool" where
  reap_pty: "main s = M_Wait \<Longrightarrow> isPty s \<Longrightarrow> proc s = P_Zombie st \<Longrightarrow>
    wait_step s (s\<lparr>proc := P_Reaped st, waited := Cmd_Wait st None, main := M_Mark\<rparr>)"
| reap_plain: "main s = M_Wait \<Longrightarrow> \<not> isPty s \<Longrightarrow> proc s = P_Zombie st \<Longrightarrow>
    wait_step s (s\<lparr>proc := P_Reaped st, main := M_Copies\<rparr>)"
| copies_end: "main s = M_Copies \<Longrightarrow> proc s = P_Reaped st \<Longrightarrow> \<not> out_held s \<Longrightarrow>
    wait_step s (s\<lparr>waited := Cmd_Wait st copyErr, main := M_Mark\<rparr>)"
| mark_reaped: "main s = M_Mark \<Longrightarrow> wait_step s (s\<lparr>reaped := True, main := M_Exit\<rparr>)"

text \<open>\<open>finish\<close> after \<open>wait\<close>, and the deferred \<open>stopWatch\<close>.\<close>

inductive finish_step :: "shell \<Rightarrow> shell \<Rightarrow> bool" where
  report: "main s = M_Exit \<Longrightarrow>
    finish_step s (s\<lparr>exits := exits s @ [exitCode (waited s)], main := M_Cancel\<rparr>)"
| cancel_watch: "main s = M_Cancel \<Longrightarrow> finish_step s (s\<lparr>done_closed := True, main := M_Finished\<rparr>)"
| join_watch: "main s = M_Finished \<Longrightarrow> finished_closed s \<Longrightarrow> finish_step s (s\<lparr>main := M_Returned\<rparr>)"

text \<open>The goroutine of \<open>terminateOnDisconnect\<close>.\<close>

inductive guard_step :: "shell \<Rightarrow> shell \<Rightarrow> bool" where
  watch_done: "watch s = T_Select \<or> watch s = T_Grace \<Longrightarrow> done_closed s \<Longrightarrow> guard_step s (s\<lparr>watch := T_Close\<rparr>)"
| watch_ctx: "watch s = T_Select \<Longrightarrow> hung_up s \<Longrightarrow> guard_step s (s\<lparr>watch := T_Hangup\<rparr>)"
| hang_up: "watch s = T_Hangup \<Longrightarrow> guard_step s (signalGroup SIGHUP (s\<lparr>watch := T_Grace\<rparr>))"
| grace_over: "watch s = T_Grace \<Longrightarrow> guard_step s (s\<lparr>watch := T_Kill\<rparr>)"
| kill_group: "watch s = T_Kill \<Longrightarrow> guard_step s (signalGroup SIGKILL (s\<lparr>watch := T_Close\<rparr>))"
| watch_finish: "watch s = T_Close \<Longrightarrow> guard_step s (s\<lparr>finished_closed := True, watch := T_Done\<rparr>)"

text \<open>The goroutine of \<open>watchWindowSize\<close>.\<close>

inductive resize_step :: "shell \<Rightarrow> shell \<Rightarrow> bool" where
  resize_stop: "resize s = Z_Select \<Longrightarrow> stopResize s \<Longrightarrow> resize_step s (s\<lparr>resize := Z_Close\<rparr>)"
| resize_recv: "resize s = Z_Select \<Longrightarrow> windows s = w # ws \<Longrightarrow>
    resize_step s (s\<lparr>windows := ws, resize := Z_Set w\<rparr>)"
| resize_set: "resize s = Z_Set w \<Longrightarrow>
    resize_step s (s\<lparr>sizes := (setWinsize w, master_open s) # sizes s, resize := Z_Select\<rparr>)"
| resize_finish: "resize s = Z_Close \<Longrightarrow> resize_step s (s\<lparr>resizeDone := True, resize := Z_Done\<rparr>)"

inductive run_step :: "shell \<Rightarrow> shell \<Rightarrow> bool" where
  runWithPty: "pty_step s t \<Longrightarrow> run_step s t"
| runWithoutPty: "plain_step s t \<Longrightarrow> run_step s t"
| wait: "wait_step s t \<Longrightarrow> run_step s t"
| finish: "finish_step s t \<Longrightarrow> run_step s t"
| terminateOnDisconnect: "guard_step s t \<Longrightarrow> run_step s t"
| watchWindowSize: "resize_step s t \<Longrightarrow> run_step s t"

lemmas run_elims = run_step.cases pty_step.cases plain_step.cases wait_step.cases finish_step.cases guard_step.cases resize_step.cases

section \<open>Steps of the environment\<close>

inductive env_step :: "shell \<Rightarrow> shell \<Rightarrow> bool" where
  disconnect: "env_step s (s\<lparr>hung_up := True\<rparr>)"
| client_window: "\<not> hung_up s \<Longrightarrow> env_step s (s\<lparr>windows := windows s @ [w]\<rparr>)"
| leader_exits: "proc s = P_Running \<Longrightarrow> env_step s (s\<lparr>proc := P_Zombie st\<rparr>)"
| forks: "proc s = P_Running \<or> bg s \<Longrightarrow> env_step s (s\<lparr>bg := True, bg_out := bg_out s \<or> b\<rparr>)"
| bg_closes: "env_step s (s\<lparr>bg_out := False\<rparr>)"
| bg_exits: "env_step s (s\<lparr>bg := False, bg_out := False\<rparr>)"
| escapes: "proc s = P_Running \<or> bg s \<Longrightarrow> env_step s (s\<lparr>esc_out := True\<rparr>)"
| escaped_closes: "env_step s (s\<lparr>esc_out := False\<rparr>)"
  \<comment> \<open>writing to the session fails\<close>
| copy_fails: "main s = M_Copy \<Longrightarrow> env_step s (s\<lparr>main := M_Stop\<rparr>)"
| copies_fail: "main s = M_Copies \<Longrightarrow> proc s = P_Reaped st \<Longrightarrow>
    env_step s (s\<lparr>waited := Cmd_Wait st (Some e), main := M_Mark\<rparr>)"
  \<comment> \<open>the library closes the channel of window sizes; the input ends or cannot be written\<close>
| windows_closed: "resize s = Z_Select \<Longrightarrow> env_step s (s\<lparr>resize := Z_Close\<rparr>)"
| input_ends: "input s = I_Copy \<Longrightarrow> env_step s (s\<lparr>input := (if isPty s then I_Done else I_Close)\<rparr>)"

inductive shell_step :: "shell \<Rightarrow> shell \<Rightarrow> bool" where
  server: "run_step s t \<Longrightarrow> shell_step s t"
| world: "env_step s t \<Longrightarrow> shell_step s t"

section \<open>Lemmas\<close>

subsection \<open>Exit status\<close>

lemma mask7: "w AND 0x7F = take_bit 7 (w :: 32 word)"
  by (simp add: take_bit_eq_mask mask_eq_exp_minus_1)

lemma low7_bounds: "0 \<le> uint (w AND 0x7F :: 32 word)" "uint (w AND 0x7F :: 32 word) < 128"
  unfolding mask7 by (simp_all add: unsigned_take_bit_eq take_bit_int_less_exp [of 7, simplified])

lemma ExitStatus_bounds: "- 1 \<le> ExitStatus w" "ExitStatus w \<le> 255"
proof -
  have "drop_bit 8 w AND 0xFF = take_bit 8 (drop_bit 8 w)"
    by (simp add: take_bit_eq_mask mask_eq_exp_minus_1)
  then have "uint (drop_bit 8 w AND 0xFF) < 256"
    using take_bit_int_less_exp [of 8 "uint (drop_bit 8 w)"] by (simp add: unsigned_take_bit_eq)
  moreover have "0 \<le> uint (drop_bit 8 w AND 0xFF)" by simp
  ultimately show "- 1 \<le> ExitStatus w" "ExitStatus w \<le> 255" 
    unfolding ExitStatus_def by (cases "Exited w"; simp only: if_True if_False; linarith)+
qed

lemma Signal_of_bounds: "Signaled w \<Longrightarrow> 1 \<le> Signal_of w \<and> Signal_of w \<le> 126"
proof -
  assume s: "Signaled w"
  then have "uint (w AND 0x7F) \<noteq> 0" and "uint (w AND 0x7F) \<noteq> 127"
    using word_uint_eq_iff [of "w AND 0x7F" 0] word_uint_eq_iff [of "w AND 0x7F" "0x7F"]
    by (auto simp: Signaled_def)
  with low7_bounds [of w] have "1 \<le> uint (w AND 0x7F) \<and> uint (w AND 0x7F) \<le> 126" by linarith
  with s show ?thesis by (simp add: Signal_of_def)
qed

subsection \<open>The invariant\<close>

text \<open>Where the main goroutine can be, by what it has done.\<close>

fun no_process :: "shell_pc \<Rightarrow> bool" where
  "no_process M_Start = True"
| "no_process M_Failed = True"
| "no_process _ = False"

fun after_reap :: "shell_pc \<Rightarrow> bool" where
  "after_reap M_Copies = True"
| "after_reap M_Mark = True"
| "after_reap M_Exit = True"
| "after_reap M_Cancel = True"
| "after_reap M_Finished = True"
| "after_reap M_Returned = True"
| "after_reap _ = False"

fun after_mark :: "shell_pc \<Rightarrow> bool" where
  "after_mark M_Exit = True"
| "after_mark M_Cancel = True"
| "after_mark M_Finished = True"
| "after_mark M_Returned = True"
| "after_mark _ = False"

fun after_cancel :: "shell_pc \<Rightarrow> bool" where
  "after_cancel M_Finished = True"
| "after_cancel M_Returned = True"
| "after_cancel _ = False"

fun resizing :: "shell_pc \<Rightarrow> bool" where
  "resizing M_Input = True"
| "resizing M_Copy = True"
| "resizing M_Stop = True"
| "resizing M_Join = True"
| "resizing _ = False"

fun on_terminal :: "shell_pc \<Rightarrow> bool" where
  "on_terminal M_Size = True"
| "on_terminal M_Resize = True"
| "on_terminal M_Copy = True"
| "on_terminal M_Stop = True"
| "on_terminal M_Join = True"
| "on_terminal M_Close = True"
| "on_terminal _ = False"

fun process_reaped :: "process \<Rightarrow> bool" where
  "process_reaped (P_Reaped st) = True"
| "process_reaped _ = False"

fun past_kill :: "watch_pc \<Rightarrow> bool" where
  "past_kill T_Close = True"
| "past_kill T_Done = True"
| "past_kill _ = False"

definition group_dead :: "shell \<Rightarrow> bool" where
  "group_dead s \<longleftrightarrow> proc s \<noteq> P_Running \<and> \<not> bg s \<and> \<not> bg_out s"

definition proc_ok :: "shell \<Rightarrow> bool" where
  "proc_ok s \<longleftrightarrow>
     (proc s = P_None \<longleftrightarrow> no_process (main s)) \<and> (process_reaped (proc s) \<longleftrightarrow> after_reap (main s)) \<and>
     (reaped s \<longleftrightarrow> after_mark (main s)) \<and> (on_terminal (main s) \<longrightarrow> isPty s) \<and> (bg_out s \<longrightarrow> bg s) \<and>
     (main s = M_Copies \<longrightarrow> \<not> isPty s)"

definition guard_ok :: "shell \<Rightarrow> bool" where
  "guard_ok s \<longleftrightarrow>
     (watch s = T_None \<longleftrightarrow> no_process (main s)) \<and> (done_closed s \<longleftrightarrow> after_cancel (main s)) \<and>
     (finished_closed s \<longleftrightarrow> watch s = T_Done) \<and> (main s = M_Returned \<longrightarrow> watch s = T_Done) \<and>
     (past_kill (watch s) \<and> \<not> done_closed s \<longrightarrow> reaped s \<or> group_dead s)"

text \<open>The resize goroutine lives from \<open>watchWindowSize\<close> to the join.\<close>

definition resize_at :: "shell_pc \<Rightarrow> bool \<Rightarrow> resize_pc \<Rightarrow> bool" where
  "resize_at m p z \<longleftrightarrow>
     (if resizing m then p \<longleftrightarrow> z \<noteq> Z_None
      else if p \<and> (after_reap m \<or> m = M_Close \<or> m = M_Wait) then z = Z_Done else z = Z_None)"

definition resize_ok :: "shell \<Rightarrow> bool" where
  "resize_ok s \<longleftrightarrow>
     resize_at (main s) (isPty s) (resize s) \<and> (resizeDone s \<longleftrightarrow> resize s = Z_Done) \<and>
     (main s = M_Join \<longrightarrow> stopResize s) \<and>
     (isPty s \<and> (on_terminal (main s) \<or> resizing (main s)) \<longrightarrow> master_open s) \<and>
     list_all snd (sizes s)"

definition signals_ok :: "shell \<Rightarrow> bool" where
  "signals_ok s \<longleftrightarrow> (\<forall>(sig, pc, ok) \<in> set (signals s). ok \<or> pc = M_Copies \<or> pc = M_Mark)"

lemmas step_simps = signalGroup_def Let_def group_dead_def

lemma run_proc_ok: "run_step s t \<Longrightarrow> proc_ok s \<Longrightarrow> proc_ok t"
  by (elim run_elims) (auto simp: proc_ok_def step_simps split: if_splits)

lemma env_proc_ok: "env_step s t \<Longrightarrow> proc_ok s \<Longrightarrow> proc_ok t"
  by (erule env_step.cases) (auto simp: proc_ok_def)

lemma run_guard_ok: "run_step s t \<Longrightarrow> proc_ok s \<Longrightarrow> guard_ok s \<Longrightarrow> guard_ok t"
  by (elim run_elims) (auto simp: guard_ok_def proc_ok_def step_simps split: if_splits)

lemma env_guard_ok: "env_step s t \<Longrightarrow> guard_ok s \<Longrightarrow> guard_ok t"
  by (erule env_step.cases) (auto simp: guard_ok_def step_simps)

lemma signalGroup_simps [simp]:
  "main (signalGroup sig s) = main s" "isPty (signalGroup sig s) = isPty s"
  "watch (signalGroup sig s) = watch s" "resize (signalGroup sig s) = resize s"
  "resizeDone (signalGroup sig s) = resizeDone s" "stopResize (signalGroup sig s) = stopResize s"
  "master_open (signalGroup sig s) = master_open s" "sizes (signalGroup sig s) = sizes s"
  "windows (signalGroup sig s) = windows s" "input (signalGroup sig s) = input s"
  "exits (signalGroup sig s) = exits s" "waited (signalGroup sig s) = waited s"
  "hung_up (signalGroup sig s) = hung_up s"
  by (simp_all add: signalGroup_def Let_def)

lemma resize_at_live [simp]:
  "resize_at m p Z_Select \<longleftrightarrow> p \<and> resizing m" "resize_at m p (Z_Set w) \<longleftrightarrow> p \<and> resizing m"
  "resize_at m p Z_Close \<longleftrightarrow> p \<and> resizing m"
  by (simp_all add: resize_at_def)

lemma resize_at_Done: "resizing m \<Longrightarrow> p \<Longrightarrow> resize_at m p Z_Done"
  by (simp add: resize_at_def)

lemma resize_at_main [simp]:
  "resize_at M_Start p z \<longleftrightarrow> z = Z_None" "resize_at M_Size p z \<longleftrightarrow> z = Z_None"
  "resize_at M_Resize p z \<longleftrightarrow> z = Z_None" "resize_at M_Failed p z \<longleftrightarrow> z = Z_None"
  "resizing m \<Longrightarrow> resize_at m p z \<longleftrightarrow> (p \<longleftrightarrow> z \<noteq> Z_None)"
  "after_reap m \<Longrightarrow> resize_at m p z \<longleftrightarrow> z = (if p then Z_Done else Z_None)"
  "resize_at M_Close p z \<longleftrightarrow> z = (if p then Z_Done else Z_None)"
  "resize_at M_Wait p z \<longleftrightarrow> z = (if p then Z_Done else Z_None)"
  by (cases m; simp add: resize_at_def)+

lemma run_resize_ok: "run_step s t \<Longrightarrow> proc_ok s \<Longrightarrow> resize_ok s \<Longrightarrow> resize_ok t"
  by (elim run_elims) (simp_all add: resize_ok_def resize_at_Done proc_ok_def)

lemma env_resize_ok: "env_step s t \<Longrightarrow> resize_ok s \<Longrightarrow> resize_ok t"
  by (erule env_step.cases) (simp_all add: resize_ok_def)

lemma run_signals_ok: "run_step s t \<Longrightarrow> proc_ok s \<Longrightarrow> signals_ok s \<Longrightarrow> signals_ok t"
proof (elim run_elims, simp_all add: signals_ok_def)
  fix sa :: shell and sig :: signal and w :: watch_pc
  assume p: "proc_ok sa" and ok: "\<forall>x \<in> set (signals sa). case x of (sig, pc, ok) \<Rightarrow> ok \<or> pc = M_Copies \<or> pc = M_Mark"
  have "group_exists sa \<or> main sa = M_Copies \<or> main sa = M_Mark" if "\<not> reaped sa" "proc sa \<noteq> P_None"
    using that p by (cases "proc sa"; cases "main sa") (simp_all add: group_exists_def proc_ok_def)
  then have key: "\<forall>x \<in> set (signals (signalGroup sig (sa\<lparr>watch := w\<rparr>))).
      case x of (sig, pc, ok) \<Rightarrow> ok \<or> pc = M_Copies \<or> pc = M_Mark" for sig w
    using ok by (auto simp: signalGroup_def Let_def group_exists_def)
  show "\<forall>x \<in> set (signals (signalGroup SIGHUP (sa\<lparr>watch := T_Grace\<rparr>))).
      case x of (sig, pc, ok) \<Rightarrow> ok \<or> pc = M_Copies \<or> pc = M_Mark" by (rule key)
  show "\<forall>x \<in> set (signals (signalGroup SIGKILL (sa\<lparr>watch := T_Close\<rparr>))).
      case x of (sig, pc, ok) \<Rightarrow> ok \<or> pc = M_Copies \<or> pc = M_Mark" by (rule key)
qed

lemma env_signals_ok: "env_step s t \<Longrightarrow> signals_ok s \<Longrightarrow> signals_ok t"
  by (erule env_step.cases) (simp_all add: signals_ok_def)

fun reported :: "shell_pc \<Rightarrow> bool" where
  "reported M_Cancel = True"
| "reported M_Finished = True"
| "reported M_Returned = True"
| "reported _ = False"

text \<open>The error \<open>Wait\<close> gives for the process of the session.\<close>

definition wait_of :: "bool \<Rightarrow> process \<Rightarrow> wait_error option \<Rightarrow> bool" where
  "wait_of p pr err \<longleftrightarrow> (\<exists>st e. pr = P_Reaped st \<and> err = Cmd_Wait st e \<and> (p \<longrightarrow> e = None))"

definition exit_ok :: "shell \<Rightarrow> bool" where
  "exit_ok s \<longleftrightarrow>
     (\<not> reported (main s) \<and> main s \<noteq> M_Failed \<longrightarrow> exits s = []) \<and>
     (main s = M_Failed \<longrightarrow> exits s = [exitCodeGeneralError] \<or> exits s = [exitCodeCommandNotExecutable]) \<and>
     (reported (main s) \<longrightarrow> exits s = [exitCode (waited s)]) \<and>
     (after_mark (main s) \<or> main s = M_Mark \<longrightarrow> wait_of (isPty s) (proc s) (waited s))"

lemma wait_of_signal: "wait_of p (proc s) err \<Longrightarrow> wait_of p (proc (signalGroup sig (s\<lparr>watch := w\<rparr>))) err"
  by (auto simp: wait_of_def signalGroup_def Let_def)

lemma wait_of_Reaped [simp]: "wait_of True (P_Reaped st) (Cmd_Wait st None)" "wait_of False (P_Reaped st) (Cmd_Wait st e)"
  by (auto simp: wait_of_def)

lemma wait_of_Running [simp]: "\<not> wait_of p P_Running err"
  by (simp add: wait_of_def)

lemma run_exit_ok: "run_step s t \<Longrightarrow> proc_ok s \<Longrightarrow> exit_ok s \<Longrightarrow> exit_ok t"
  by (elim run_elims) (auto simp add: exit_ok_def proc_ok_def wait_of_signal)

lemma env_exit_ok: "env_step s t \<Longrightarrow> proc_ok s \<Longrightarrow> exit_ok s \<Longrightarrow> exit_ok t"
  by (erule env_step.cases) (auto simp: exit_ok_def proc_ok_def)

definition shell_inv :: "shell \<Rightarrow> bool" where
  "shell_inv s \<longleftrightarrow> proc_ok s \<and> guard_ok s \<and> resize_ok s \<and> signals_ok s \<and> exit_ok s"

lemma shell_inv_start: "shell_inv (shell_start p)"
  by (simp add: shell_inv_def shell_start_def proc_ok_def guard_ok_def resize_ok_def signals_ok_def exit_ok_def)

lemma shell_inv_step: "shell_inv s \<Longrightarrow> shell_step s t \<Longrightarrow> shell_inv t"
  unfolding shell_inv_def
  by (auto elim!: shell_step.cases intro: run_proc_ok env_proc_ok run_guard_ok env_guard_ok run_resize_ok
      env_resize_ok run_signals_ok env_signals_ok run_exit_ok env_exit_ok)

interpretation shell_sys: invariant_system shell_init shell_step shell_inv
proof unfold_locales
  show "shell_inv s" if "shell_init s" for s
    using that shell_inv_start [of "isPty s"] by (simp add: shell_init_def)
qed (rule shell_inv_step)

subsection \<open>Progress\<close>

fun main_left :: "shell_pc \<Rightarrow> nat" where
  "main_left M_Start = 25"
| "main_left M_Size = 18"
| "main_left M_Resize = 17"
| "main_left M_Input = 13"
| "main_left M_Copy = 10"
| "main_left M_Stop = 9"
| "main_left M_Join = 8"
| "main_left M_Close = 7"
| "main_left M_Wait = 6"
| "main_left M_Copies = 5"
| "main_left M_Mark = 4"
| "main_left M_Exit = 3"
| "main_left M_Cancel = 2"
| "main_left M_Finished = 1"
| "main_left M_Returned = 0"
| "main_left M_Failed = 0"

fun watch_left :: "watch_pc \<Rightarrow> nat" where
  "watch_left T_None = 0"
| "watch_left T_Select = 5"
| "watch_left T_Hangup = 4"
| "watch_left T_Grace = 3"
| "watch_left T_Kill = 2"
| "watch_left T_Close = 1"
| "watch_left T_Done = 0"

fun resize_left :: "resize_pc \<Rightarrow> nat" where
  "resize_left Z_None = 0"
| "resize_left Z_Select = 2"
| "resize_left (Z_Set w) = 3"
| "resize_left Z_Close = 1"
| "resize_left Z_Done = 0"

fun input_left :: "input_pc \<Rightarrow> nat" where
  "input_left I_None = 0"
| "input_left I_Copy = 2"
| "input_left I_Close = 1"
| "input_left I_Done = 0"

text \<open>The steps the server's goroutines can still take, when no more sizes come.\<close>

definition run_left :: "shell \<Rightarrow> nat" where
  "run_left s = main_left (main s) + watch_left (watch s) + resize_left (resize s) + input_left (input s)
     + 2 * length (windows s)"

lemma run_left_run: "run_step s t \<Longrightarrow> run_left t < run_left s"
  by (elim run_elims) (auto simp: run_left_def)

lemma run_left_env: "env_step s t \<Longrightarrow> hung_up s \<Longrightarrow> run_left t \<le> run_left s \<and> hung_up t"
  by (erule env_step.cases) (simp_all add: run_left_def)

lemma watch_runs:
  assumes "hung_up s" and "watch s \<noteq> T_None" and "watch s \<noteq> T_Done"
  shows "\<exists>t. run_step s t"
  using assms guard_step.intros run_step.terminateOnDisconnect by (cases "watch s") blast+

text \<open>While the main goroutine waits for a process of the group, the watcher has not finished.\<close>

lemma guard_runs:
  assumes "shell_inv s" and "hung_up s" and "\<not> reaped s" and "\<not> no_process (main s)" and "\<not> group_dead s"
  shows "\<exists>t. run_step s t"
proof (rule watch_runs [OF assms(2)])
  show "watch s \<noteq> T_None" using assms by (simp add: shell_inv_def guard_ok_def)
  have "\<not> done_closed s"
    using assms by (cases "main s") (simp_all add: shell_inv_def guard_ok_def proc_ok_def)
  then show "watch s \<noteq> T_Done" using assms by (auto simp: shell_inv_def guard_ok_def)
qed

lemma resize_runs:
  assumes "resize_ok s" and "main s = M_Join" and "isPty s"
  shows "\<exists>t. run_step s t"
proof (cases "resize s")
  case Z_None
  then show ?thesis using assms by (simp add: resize_ok_def)
next
  case Z_Select
  then show ?thesis using assms resize_stop [of s] run_step.watchWindowSize by (auto simp: resize_ok_def)
next
  case (Z_Set w)
  then show ?thesis using resize_set run_step.watchWindowSize by blast
next
  case Z_Close
  then show ?thesis using resize_finish run_step.watchWindowSize by blast
next
  case Z_Done
  then show ?thesis using assms join_resize [of s] run_step.runWithPty by (auto simp: resize_ok_def)
qed

text \<open>The steps of the main goroutine that never wait.\<close>

lemmas free_steps = first_size [THEN run_step.runWithPty] spawn_resize [THEN run_step.runWithPty]
  spawn_pty_input [THEN run_step.runWithPty] spawn_plain_input [THEN run_step.runWithoutPty]
  stop_resize [THEN run_step.runWithPty] close_master [THEN run_step.runWithPty]
  mark_reaped [THEN run_step.wait] report [THEN run_step.finish] cancel_watch [THEN run_step.finish]

lemma not_stuck:
  assumes "shell_inv s" and "hung_up s" and "\<not> esc_out s" and "main s \<noteq> M_Returned" and "main s \<noteq> M_Failed"
  shows "\<exists>t. run_step s t"
proof (cases "main s")
  case M_Start
  then show ?thesis using pty_starts plain_starts run_step.runWithPty run_step.runWithoutPty by (cases "isPty s") blast+
next
  case M_Copy
  then show ?thesis
  proof (cases "out_held s")
    case True
    with assms M_Copy show ?thesis
      by (intro guard_runs) (auto simp: shell_inv_def proc_ok_def out_held_def group_dead_def)
  qed (use M_Copy copy_eof run_step.runWithPty in blast)
next
  case M_Wait
  show ?thesis
  proof (cases "proc s")
    case P_Running
    with assms M_Wait show ?thesis
      by (intro guard_runs) (auto simp: shell_inv_def proc_ok_def group_dead_def)
  next
    case (P_Zombie st)
    then show ?thesis using M_Wait reap_pty reap_plain run_step.wait by (cases "isPty s") blast+
  qed (use assms M_Wait in \<open>auto simp: shell_inv_def proc_ok_def\<close>)
next
  case M_Copies
  with assms obtain st where p: "proc s = P_Reaped st"
    by (cases "proc s") (auto simp: shell_inv_def proc_ok_def)
  show ?thesis
  proof (cases "out_held s")
    case True
    with assms M_Copies show ?thesis
      by (intro guard_runs) (auto simp: shell_inv_def proc_ok_def out_held_def group_dead_def)
  qed (use M_Copies p copies_end run_step.wait in blast)
next
  case M_Finished
  then show ?thesis
    using assms watch_runs [of s] join_watch [of s] run_step.finish by (auto simp: shell_inv_def guard_ok_def)
next
  case M_Join
  then show ?thesis using assms resize_runs by (simp add: shell_inv_def proc_ok_def)
qed (use assms free_steps in blast)+

subsection \<open>Runs\<close>

lemma reach_run: "reach shell_init shell_step s \<Longrightarrow> run_step s t \<Longrightarrow> reach shell_init shell_step t"
  by (blast intro: reach_step shell_step.server)

lemma reach_env: "reach shell_init shell_step s \<Longrightarrow> env_step s t \<Longrightarrow> reach shell_init shell_step t"
  by (blast intro: reach_step shell_step.world)

lemma reach_shell_start: "reach shell_init shell_step (shell_start p)"
  by (rule reach_init) (simp add: shell_init_def shell_start_def)

lemma reach_gone: "reach shell_init shell_step (shell_start p\<lparr>hung_up := True\<rparr>)"
  by (rule reach_env [OF reach_shell_start disconnect])

text \<open>A command without terminal whose client has left, before the watcher signals it.\<close>

definition shell_left :: shell where
  "shell_left = (shell_start False)\<lparr>hung_up := True, proc := P_Running, stdin_open := True,
     watch := T_Hangup, main := M_Wait, input := I_Copy\<rparr>"

lemma reach_shell_left: "reach shell_init shell_step shell_left"
proof -
  let ?a = "(shell_start False)\<lparr>hung_up := True\<rparr>"
  let ?b = "?a\<lparr>proc := P_Running, stdin_open := True, watch := T_Select, main := M_Input\<rparr>"
  let ?c = "?b\<lparr>input := I_Copy, main := M_Wait\<rparr>"
  let ?d = "?c\<lparr>watch := T_Hangup\<rparr>"
  have b: "reach shell_init shell_step ?b"
    by (rule reach_run [OF reach_gone], rule run_step.runWithoutPty, rule plain_starts) (simp_all add: shell_start_def)
  have c: "reach shell_init shell_step ?c" by (rule reach_run [OF b], rule run_step.runWithoutPty, rule spawn_plain_input) (simp_all add: shell_start_def)
  have d: "reach shell_init shell_step ?d"
    by (rule reach_run [OF c], rule run_step.terminateOnDisconnect, rule watch_ctx) (simp_all add: shell_start_def)
  have "?d = shell_left" by (simp add: shell_left_def shell_start_def)
  with d show ?thesis by (simp only:)
qed

text \<open>A terminal of 80 columns and 24 rows, just started.\<close>

definition shell_sized :: shell where
  "shell_sized = (shell_start True)\<lparr>proc := P_Running, master_open := True, watch := T_Select, main := M_Resize,
     sizes := [(setWinsize \<lparr>Width = 80, Height = 24\<rparr>, True)]\<rparr>"

lemma reach_shell_sized: "reach shell_init shell_step shell_sized"
proof -
  let ?a = "(shell_start True)\<lparr>proc := P_Running, master_open := True, watch := T_Select, main := M_Size\<rparr>"
  let ?b = "?a\<lparr>sizes := (setWinsize \<lparr>Width = 80, Height = 24\<rparr>, master_open ?a) # sizes ?a, main := M_Resize\<rparr>"
  have a: "reach shell_init shell_step ?a"
    by (rule reach_run [OF reach_shell_start], rule run_step.runWithPty, rule pty_starts) (simp_all add: shell_start_def)
  have b: "reach shell_init shell_step ?b" by (rule reach_run [OF a], rule run_step.runWithPty, rule first_size) simp
  have "?b = shell_sized" by (simp add: shell_sized_def shell_start_def)
  with b show ?thesis by (simp only:)
qed

text \<open>The command without a terminal exits and is reaped, and the server has yet to set the flag.\<close>

definition shell_window :: shell where
  "shell_window = shell_left\<lparr>proc := P_Reaped 0, waited := None, main := M_Mark\<rparr>"

lemma reach_shell_window: "reach shell_init shell_step shell_window"
proof -
  let ?a = "shell_left\<lparr>proc := P_Zombie 0\<rparr>"
  let ?b = "?a\<lparr>proc := P_Reaped 0, main := M_Copies\<rparr>"
  let ?c = "?b\<lparr>waited := Cmd_Wait 0 None, main := M_Mark\<rparr>"
  have a: "reach shell_init shell_step ?a"
    by (rule reach_env [OF reach_shell_left], rule leader_exits) (simp add: shell_left_def)
  have b: "reach shell_init shell_step ?b"
    by (rule reach_run [OF a], rule run_step.wait, rule reap_plain) (simp_all add: shell_left_def shell_start_def)
  have c: "reach shell_init shell_step ?c"
    by (rule reach_run [OF b], rule run_step.wait, rule copies_end) (simp_all add: shell_left_def shell_start_def out_held_def)
  have "?c = shell_window"
    by (simp add: shell_window_def shell_left_def shell_start_def Cmd_Wait_def ExitStatus_def Exited_def)
  with c show ?thesis by (simp only:)
qed

section \<open>Properties\<close>

text \<open>
  C2: A session ends after its client is gone, whatever its processes do inside their group:
  each step of a server goroutine lowers a bound on the steps that are left and no step of the
  client or the processes raises it, and as long as the session has not returned and no process
  outside the group keeps the output open, some server goroutine can take a step.\<close>

theorem disconnect_ends:
  assumes "reach shell_init shell_step s" and "hung_up s"
  shows "(\<forall>t. run_step s t \<longrightarrow> run_left t < run_left s) \<and>
    (\<forall>t. env_step s t \<longrightarrow> run_left t \<le> run_left s \<and> hung_up t) \<and>
    (esc_out s \<or> main s \<in> {M_Returned, M_Failed} \<or> (\<exists>t. run_step s t))"
  using run_left_run run_left_env [OF _ assms(2)] not_stuck [OF shell_sys.reach_inv [OF assms(1)] assms(2)]
  by blast

theorem disconnect_ends_witness:
  "main shell_left = M_Wait \<and> proc shell_left = P_Running \<and> (\<exists>t. run_step shell_left t)"
proof -
  have "hung_up shell_left" and "\<not> esc_out shell_left" and "main shell_left = M_Wait \<and> proc shell_left = P_Running"
    by (simp_all add: shell_left_def shell_start_def)
  with disconnect_ends [OF reach_shell_left] show ?thesis by auto
qed



text \<open>
  C14: The client gets exactly one exit status, and it is the one of its command: a session that
  has returned has reported the code of the status the process was reaped with (on a terminal
  nothing else can intervene, without one a failed copy of the output is reported as an
  error), and a session whose command could not be started has reported 1 or 127.\<close>

theorem session_exit_reported:
  assumes "reach shell_init shell_step s"
  shows "(main s = M_Returned \<longrightarrow>
      (\<exists>st e. proc s = P_Reaped st \<and> exits s = [exitCode (Cmd_Wait st e)] \<and> (isPty s \<longrightarrow> e = None))) \<and>
    (main s = M_Failed \<longrightarrow> proc s = P_None \<and> exits s \<in> {[1], [127]})"
proof -
  have inv: "shell_inv s" by (rule shell_sys.reach_inv [OF assms])
  have "\<exists>st e. proc s = P_Reaped st \<and> exits s = [exitCode (Cmd_Wait st e)] \<and> (isPty s \<longrightarrow> e = None)"
    if m: "main s = M_Returned"
  proof -
    have "wait_of (isPty s) (proc s) (waited s)" and "exits s = [exitCode (waited s)]"
      using inv m by (simp_all add: shell_inv_def exit_ok_def)
    then show ?thesis by (auto simp: wait_of_def)
  qed
  moreover have "proc s = P_None \<and> exits s \<in> {[1], [127]}" if m: "main s = M_Failed"
    using inv m
    by (simp add: shell_inv_def exit_ok_def proc_ok_def exitCodeGeneralError_def exitCodeCommandNotExecutable_def)
  ultimately show ?thesis by blast
qed

theorem session_exit_reported_witness:
  "proc (shell_start False\<lparr>exits := [127], main := M_Failed\<rparr>) = P_None"
proof -
  have "reach shell_init shell_step (shell_start False\<lparr>exits := exits (shell_start False) @ [exitCodeCommandNotExecutable], main := M_Failed\<rparr>)"
    by (rule reach_run [OF reach_shell_start], rule run_step.runWithoutPty, rule start_fails) (simp_all add: shell_start_def)
  then have "reach shell_init shell_step (shell_start False\<lparr>exits := [127], main := M_Failed\<rparr>)"
    by (simp add: shell_start_def exitCodeCommandNotExecutable_def)
  from session_exit_reported [OF this] show ?thesis by simp
qed

text \<open>
  C20: The code reported for any wait status is a valid exit status, and the command's own: it is
  between 0 and 255, it is 0 only if the command exited with 0 and all its output was copied, a
  command that exits with a code other than 0 is reported with that code whatever happened to
  its output, and one killed by a signal is reported as 128 plus the signal.\<close>

theorem exitCode_faithful:
  "0 \<le> exitCode (Cmd_Wait st e) \<and> exitCode (Cmd_Wait st e) \<le> 255 \<and>
   (exitCode (Cmd_Wait st e) = 0 \<longleftrightarrow> Exited st \<and> ExitStatus st = 0 \<and> e = None) \<and>
   (if Exited st \<and> ExitStatus st \<noteq> 0 then exitCode (Cmd_Wait st e) = ExitStatus st else True) \<and>
   (if Signaled st then exitCode (Cmd_Wait st e) = 128 + Signal_of st else True)"
proof (cases "Exited st")
  case True
  then have "\<not> Signaled st" and "0 \<le> ExitStatus st"
    by (simp_all add: Exited_def Signaled_def ExitStatus_def)
  with True ExitStatus_bounds [of st] show ?thesis
    by (cases e) (auto simp: exitCode_def Cmd_Wait_def exitCodeGeneralError_def)
next
  case False
  then have "ExitStatus st = - 1" by (simp add: ExitStatus_def)
  with False Signal_of_bounds [of st] show ?thesis
    by (auto simp: exitCode_def Cmd_Wait_def exitCodeGeneralError_def signalExitCodeBase_def)
qed

text \<open>
  C21: Signals go to the session's own process group outside one window: a signal is only sent
  when the group exists, or between the moment the kernel lets \<open>cmd.Wait\<close> reap the process and
  the moment \<open>wait\<close> sets \<open>reaped\<close>; once it is set, \<open>signalGroup\<close> does nothing.\<close>

theorem signals_reach_group:
  assumes "reach shell_init shell_step s"
  shows "(\<forall>(sig, pc, ok) \<in> set (signals s). ok \<or> pc \<in> {M_Copies, M_Mark}) \<and>
    (reaped s \<longrightarrow> signalGroup sig s = s)"
  using shell_sys.reach_inv [OF assms] by (auto simp: shell_inv_def signals_ok_def signalGroup_def)

theorem signals_reach_group_witness:
  "signals (signalGroup SIGHUP (shell_left\<lparr>watch := T_Grace\<rparr>)) = [(SIGHUP, M_Wait, True)]"
proof -
  have r: "reach shell_init shell_step (signalGroup SIGHUP (shell_left\<lparr>watch := T_Grace\<rparr>))"
    by (rule reach_run [OF reach_shell_left], rule run_step.terminateOnDisconnect, rule hang_up) (simp add: shell_left_def)
  have "\<exists>b. signals (signalGroup SIGHUP (shell_left\<lparr>watch := T_Grace\<rparr>)) = [(SIGHUP, M_Wait, b)]"
    by (simp add: signalGroup_def shell_left_def shell_start_def)
  with signals_reach_group [OF r] show ?thesis by auto
qed

text \<open>
  C39: The window is real: the mutex of \<open>sessionCmd\<close> does not cover \<open>cmd.Wait\<close>, so there is a run in
  which the watcher sends \<open>SIGHUP\<close> to the group of a process that has already been reaped and
  has no group left, whose id the kernel may have given to another process by then.\<close>

theorem signal_after_reap:
  "\<exists>s st. reach shell_init shell_step s \<and> proc s = P_Reaped st \<and> \<not> bg s \<and> (SIGHUP, M_Mark, False) \<in> set (signals s)"
proof -
  let ?s = "signalGroup SIGHUP (shell_window\<lparr>watch := T_Grace\<rparr>)"
  have "reach shell_init shell_step ?s"
    by (rule reach_run [OF reach_shell_window], rule run_step.terminateOnDisconnect, rule hang_up) (simp add: shell_window_def shell_left_def)
  moreover have "proc ?s = P_Reaped 0 \<and> \<not> bg ?s \<and> (SIGHUP, M_Mark, False) \<in> set (signals ?s)"
    by (simp add: signalGroup_def shell_window_def shell_left_def shell_start_def group_exists_def)
  ultimately show ?thesis by blast
qed

end
