(* ===== verification/SSH_Config.thy ===== *)
theory SSH_Config
  imports Env_Reader Go_Net Go_Time Go_Path Transition
begin

text \<open>
  Configuration of the SSH server, \<open>internal/sshserver/config.go\<close>: reading the environment,
  \<open>validate\<close> with its loopback rule, and the warning about a host key on storage that does
  not survive a restart. The home directory of the password database and the result of
  \<open>os.Stat\<close> are arguments.
\<close>

definition defaultPort :: int where "defaultPort = 2222"
definition defaultMaxSessions :: int where "defaultMaxSessions = 10"
definition defaultIdleTimeout :: Duration where "defaultIdleTimeout = 12 * Hour"
definition loopbackIPv4 :: string where "loopbackIPv4 = ''127.0.0.1''"
definition hostKeyDirName :: string where "hostKeyDirName = ''.ssh''"
definition hostKeyFileName :: string where "hostKeyFileName = ''ssh_host_ed25519_key''"
definition localhostHost :: string where "localhostHost = ''localhost''"
definition rootPath :: string where "rootPath = ''/''"

definition ephemeralPathPrefixes :: "string list" where
  "ephemeralPathPrefixes = [''/tmp/'', ''/var/tmp/'', ''/run/'', ''/dev/shm/'']"

record Config =
  ListenAddr :: string
  HostKeyPath :: string
  IdleTimeout :: Duration
  MaxSessions :: int
  LoginShell :: bool
  AllowNonLoopback :: bool

subsection \<open>Reading the environment\<close>

definition getEnv :: "env \<Rightarrow> string \<Rightarrow> string \<Rightarrow> string" where
  "getEnv env key defaultValue =
     (let value = Getenv env key in if value \<noteq> [] then value else defaultValue)"

definition getDurationEnv :: "env \<Rightarrow> string \<Rightarrow> Duration \<Rightarrow> Duration" where
  "getDurationEnv env key defaultValue =
     (let value = Getenv env key in
      if value \<noteq> [] then (case ParseDuration value of None \<Rightarrow> defaultValue | Some d \<Rightarrow> d)
      else defaultValue)"

definition getIntEnv :: "env \<Rightarrow> string \<Rightarrow> int \<Rightarrow> int" where
  "getIntEnv env key defaultValue =
     (let value = Getenv env key in
      if value \<noteq> [] then (case Atoi_opt value of None \<Rightarrow> defaultValue | Some n \<Rightarrow> n)
      else defaultValue)"

definition getBoolEnv :: "env \<Rightarrow> string \<Rightarrow> bool \<Rightarrow> bool" where
  "getBoolEnv env key defaultValue =
     (let value = Getenv env key in
      if value \<noteq> [] then (case ParseBool value of None \<Rightarrow> defaultValue | Some b \<Rightarrow> b)
      else defaultValue)"

text \<open>\<open>passwd\<close> is the home directory \<open>user.Current()\<close> gives, \<open>None\<close> where it fails.\<close>

definition homeDir :: "string option \<Rightarrow> env \<Rightarrow> string" where
  "homeDir passwd env =
     (let home = Getenv env ''HOME'' in
      if home \<noteq> [] then home
      else case passwd of Some dir \<Rightarrow> dir | None \<Rightarrow> [])"

definition defaultHostKeyPath :: "string option \<Rightarrow> env \<Rightarrow> string" where
  "defaultHostKeyPath passwd env =
     (let home = homeDir passwd env in
      if home = [] then [] else Join [home, hostKeyDirName, hostKeyFileName])"

definition LoadConfig :: "string option \<Rightarrow> env \<Rightarrow> Config" where
  "LoadConfig passwd env =
     \<lparr>ListenAddr = getEnv env ''SSH_LISTEN_ADDR'' (loopbackIPv4 @ CHR '':'' # Itoa defaultPort),
      HostKeyPath = getEnv env ''SSH_HOST_KEY_PATH'' (defaultHostKeyPath passwd env),
      IdleTimeout = getDurationEnv env ''SSH_IDLE_TIMEOUT'' defaultIdleTimeout,
      MaxSessions = getIntEnv env ''SSH_MAX_SESSIONS'' defaultMaxSessions,
      LoginShell = getBoolEnv env ''SSH_LOGIN_SHELL'' False,
      AllowNonLoopback = getBoolEnv env ''SSH_ALLOW_NON_LOOPBACK'' False\<rparr>"

subsection \<open>Validation\<close>

definition isLoopback :: "string \<Rightarrow> bool" where
  "isLoopback host =
     (if host = '''' \<or> host = ''*'' then False
      else if host = localhostHost then True
      else case ParseIP host of None \<Rightarrow> False | Some ip \<Rightarrow> IsLoopback ip)"

datatype ConfigError =
    BadListenAddr AddrError
  | BadListenPort string
  | NoHostKeyPath
  | RelativeHostKeyPath string
  | NegativeMaxSessions int
  | NegativeIdleTimeout Duration
  | NotLoopback string

definition validate :: "Config \<Rightarrow> ConfigError option" where
  "validate c =
     (case SplitHostPort (ListenAddr c) of
        Err err \<Rightarrow> Some (BadListenAddr err)
      | Ok (host, port) \<Rightarrow>
          (case Atoi port of
             (p, convErr) \<Rightarrow>
               if convErr \<noteq> None \<or> p < 1 \<or> 65535 < p then Some (BadListenPort port)
               else if HostKeyPath c = [] then Some NoHostKeyPath
               else if \<not> IsAbs (HostKeyPath c) then Some (RelativeHostKeyPath (HostKeyPath c))
               else if MaxSessions c < 0 then Some (NegativeMaxSessions (MaxSessions c))
               else if IdleTimeout c < 0 then Some (NegativeIdleTimeout (IdleTimeout c))
               else if \<not> AllowNonLoopback c \<and> \<not> isLoopback host then Some (NotLoopback (ListenAddr c))
               else None))"

subsection \<open>Where the host key lives\<close>

text \<open>
  What \<open>os.Stat\<close> tells of a path that exists: the device, where \<open>Sys()\<close> is the system's
  structure.
\<close>

datatype FileInfo = Stat_t nat | NoSys

definition onSameDevice :: "FileInfo \<Rightarrow> FileInfo \<Rightarrow> bool" where
  "onSameDevice a b =
     (case (a, b) of (Stat_t m, Stat_t n) \<Rightarrow> m = n | _ \<Rightarrow> False)"

function statNearestAncestor :: "(string \<Rightarrow> FileInfo option) \<Rightarrow> string \<Rightarrow> FileInfo option" where
  "statNearestAncestor stat path =
     (case stat path of
        Some info \<Rightarrow> Some info
      | None \<Rightarrow> if Dir path = path then None else statNearestAncestor stat (Dir path))"
  by pat_completeness auto
termination
proof (relation "measure (\<lambda>(stat, p). if p = ''.'' then 0 else Suc (length p))")
  fix stat :: "string \<Rightarrow> FileInfo option" and path
  assume "Dir path \<noteq> path"
  then have "path \<noteq> ''.''" by auto
  with \<open>Dir path \<noteq> path\<close> Dir_progress [of path]
  show "((stat, Dir path), (stat, path)) \<in> measure (\<lambda>(stat, p). if p = ''.'' then 0 else Suc (length p))"
    by auto
qed simp

declare statNearestAncestor.simps [simp del]

definition isOnRootDevice :: "(string \<Rightarrow> FileInfo option) \<Rightarrow> string \<Rightarrow> bool" where
  "isOnRootDevice stat path =
     (case stat rootPath of
        None \<Rightarrow> False
      | Some rootInfo \<Rightarrow>
          (case statNearestAncestor stat path of
             None \<Rightarrow> False
           | Some pathInfo \<Rightarrow> onSameDevice pathInfo rootInfo))"

definition hasEphemeralHostKeyPath :: "(string \<Rightarrow> FileInfo option) \<Rightarrow> Config \<Rightarrow> bool" where
  "hasEphemeralHostKeyPath stat c =
     (if \<exists>prefix \<in> set ephemeralPathPrefixes. HasPrefix (HostKeyPath c) prefix then True
      else isOnRootDevice stat (Dir (HostKeyPath c)))"

section \<open>The readers satisfy the contract\<close>

interpretation ssh_env: typed_env getEnv Some
  by unfold_locales (simp_all add: getEnv_def)

interpretation ssh_dur: typed_env getDurationEnv ParseDuration
  by unfold_locales (simp_all add: getDurationEnv_def)

interpretation ssh_int: typed_env getIntEnv Atoi_opt
  by unfold_locales (simp_all add: getIntEnv_def)

interpretation ssh_bool: typed_env getBoolEnv ParseBool
  by unfold_locales (simp_all add: getBoolEnv_def)

section \<open>Lemmas\<close>

text \<open>A loopback address is one of 127.0.0.0/8, also in its IPv6-mapped form, or \<open>::1\<close>.\<close>

definition loopback_ip :: "ip \<Rightarrow> bool" where
  "loopback_ip ip \<longleftrightarrow>
     ip = replicate 15 0 @ [1] \<or> (\<exists>rest. ip = replicate 10 0 @ [255, 255, 127] @ rest)"

lemma IsLoopback_iff:
  assumes "length ip = 16"
  shows "IsLoopback ip \<longleftrightarrow> loopback_ip ip"
proof (cases "take 12 ip = replicate 10 0 @ [255, 255]")
  case True
  then have ip: "ip = replicate 10 0 @ [255, 255] @ drop 12 ip" by (metis append_assoc append_take_drop_id)
  from assms obtain x xs where d: "drop 12 ip = x # xs" by (cases "drop 12 ip") auto
  with ip have ip': "ip = replicate 10 0 @ 255 # 255 # x # xs" by simp
  then have "ip ! 10 = 255" by (simp add: nth_append)
  moreover have "(replicate 15 0 @ [1] :: ip) ! 10 = 0" by (simp add: nth_append)
  ultimately have "ip \<noteq> replicate 15 0 @ [1]" by auto
  then have "loopback_ip ip \<longleftrightarrow> x = 127" unfolding loopback_ip_def by (auto simp: ip')
  with True d show ?thesis by (simp add: IsLoopback_def To4_def)
next
  case False
  then have "\<not> (\<exists>rest. ip = replicate 10 0 @ [255, 255, 127] @ rest)" by auto
  with False show ?thesis by (simp add: IsLoopback_def To4_def loopback_ip_def IPv6loopback_def)
qed

lemma isLoopback_iff:
  "isLoopback host \<longleftrightarrow> host = ''localhost'' \<or> (\<exists>ip. ParseIP host = Some ip \<and> loopback_ip ip)"
proof -
  have "ParseIP '''' = None" "ParseIP ''*'' = None" "ParseIP ''localhost'' = None" by code_simp+
  then show ?thesis
    using IsLoopback_iff ParseIP_length
    by (auto simp: isLoopback_def localhostHost_def split: option.splits)
qed

lemma Atoi_opt_range:
  "(snd (Atoi s) \<noteq> None \<or> fst (Atoi s) < 1 \<or> 65535 < fst (Atoi s)) \<longleftrightarrow>
   \<not> (\<exists>p. Atoi_opt s = Some p \<and> 1 \<le> p \<and> p \<le> 65535)"
  by (cases "Atoi s"; cases "snd (Atoi s)") (auto simp: Atoi_opt_def)

lemma IsAbs_nonempty: "IsAbs p \<Longrightarrow> p \<noteq> []"
  by (auto simp: IsAbs_def HasPrefix_def)

lemma IsAbs_defaultHostKeyPath:
  assumes "IsAbs home"
  shows "IsAbs (defaultHostKeyPath passwd [''HOME'' \<mapsto> home])"
proof -
  have "IsAbs (home @ x)" for x using assms IsAbs_nonempty by simp
  then show ?thesis
    using assms IsAbs_nonempty [OF assms]
    by (simp add: defaultHostKeyPath_def homeDir_def Getenv_def Join_def hostKeyDirName_def Let_def)
qed

subsection \<open>The nearest ancestor\<close>

definition nearest :: "(string \<Rightarrow> FileInfo option) \<Rightarrow> string \<Rightarrow> FileInfo \<Rightarrow> bool" where
  "nearest stat p info \<longleftrightarrow>
     (\<exists>n. stat ((Dir ^^ n) p) = Some info \<and> (\<forall>m < n. stat ((Dir ^^ m) p) = None))"

lemma nearest_here: "stat p = Some info \<Longrightarrow> nearest stat p info"
  by (auto simp: nearest_def intro: exI [of _ 0])

lemma nearest_up: "stat p = None \<Longrightarrow> nearest stat (Dir p) info \<Longrightarrow> nearest stat p info"
proof -
  assume "stat p = None" "nearest stat (Dir p) info"
  then obtain n where n: "stat ((Dir ^^ n) (Dir p)) = Some info" "\<forall>m < n. stat ((Dir ^^ m) (Dir p)) = None"
    by (auto simp: nearest_def)
  have "stat ((Dir ^^ m) p) = None" if "m < Suc n" for m
    using that n(2) \<open>stat p = None\<close> by (cases m) (auto simp: funpow_swap1)
  with n(1) show ?thesis unfolding nearest_def by (intro exI [of _ "Suc n"]) (auto simp: funpow_swap1)
qed

lemma statNearestAncestor_nearest: "statNearestAncestor stat p = Some info \<Longrightarrow> nearest stat p info"
proof (induction stat p rule: statNearestAncestor.induct)
  case (1 stat p)
  then show ?case
    by (subst (asm) (2) statNearestAncestor.simps) (auto split: option.splits if_splits intro: nearest_here nearest_up)
qed

lemma statNearestAncestor_abs:
  "IsAbs p \<Longrightarrow> stat ''/'' \<noteq> None \<Longrightarrow> statNearestAncestor stat p \<noteq> None"
proof (induction "length p" arbitrary: p rule: less_induct)
  case less
  from Dir_abs [OF less.prems(1)] have up: "IsAbs (Dir p)" "Dir p = ''/'' \<or> length (Dir p) < length p" by auto
  have root: "statNearestAncestor stat ''/'' \<noteq> None"
    using less.prems(2) by (subst statNearestAncestor.simps) auto
  have "statNearestAncestor stat (Dir p) \<noteq> None"
    using up less.hyps [of "Dir p"] less.prems(2) root by auto
  moreover have "Dir p = p \<Longrightarrow> p = ''/''" using up by auto
  ultimately show ?case using less.prems(2) by (subst statNearestAncestor.simps) (auto split: option.splits)
qed

section \<open>Properties\<close>

text \<open>
  C6: what \<open>validate\<close> lets through, exactly. The listen address splits into a host and a
  numeric port between 1 and 65535, the host key path is absolute, neither limit is negative,
  and, unless the restriction was lifted explicitly, the host is \<open>localhost\<close> or a literal
  address of the loopback interface: one of 127.0.0.0/8, also written as an IPv4-mapped IPv6
  address, or \<open>::1\<close>. In particular an empty host and \<open>*\<close>, which listen everywhere, are refused.
\<close>

theorem validate_loopback:
  "validate c = None \<longleftrightarrow>
     (\<exists>host port p. SplitHostPort (ListenAddr c) = Ok (host, port) \<and>
        Atoi_opt port = Some p \<and> 1 \<le> p \<and> p \<le> 65535 \<and>
        IsAbs (HostKeyPath c) \<and> 0 \<le> MaxSessions c \<and> 0 \<le> IdleTimeout c \<and>
        (AllowNonLoopback c \<or> host = ''localhost'' \<or> (\<exists>ip. ParseIP host = Some ip \<and> loopback_ip ip)))"
proof (cases "SplitHostPort (ListenAddr c)")
  case (Ok hp)
  obtain host port where hp: "hp = (host, port)" by fastforce
  obtain p e where a: "Atoi port = (p, e)" by fastforce
  show ?thesis
    using Atoi_opt_range [of port] IsAbs_nonempty [of "HostKeyPath c"]
    unfolding validate_def Ok hp a isLoopback_iff
    by (auto simp: a)
qed (simp add: validate_def)

text \<open>
  For a dotted IPv4 host the loopback rule looks at the first octet alone and at
  nothing else: exactly 127.b.c.d is loopback.
\<close>

theorem isLoopback_dotted:
  assumes "a \<le> 255" and "b \<le> 255" and "c \<le> 255" and "d \<le> 255"
  shows "isLoopback (dotted a b c d) \<longleftrightarrow> a = 127"
proof -
  have byte: "(of_nat a :: 8 word) = 127 \<longleftrightarrow> a = 127"
    using assms(1) word_of_nat_eq_iff [where ?'a = 8, of a 127] by (simp add: take_bit_nat_eq_self)
  have ip: "ParseIP (dotted a b c d) = Some (v4_in_v6 [of_nat a, of_nat b, of_nat c, of_nat d])"
    by (rule ParseIP_dotted [OF assms])
  moreover have "ParseIP '''' = None" "ParseIP ''*'' = None" "ParseIP ''localhost'' = None" by code_simp+
  ultimately have "dotted a b c d \<notin> {'''', ''*'', ''localhost''}" by auto
  with ip byte show ?thesis by (simp add: isLoopback_def localhostHost_def)
qed

theorem isLoopback_dotted_witness: "isLoopback (dotted 127 9 0 1) \<and> \<not> isLoopback (dotted 10 0 0 1)"
  using isLoopback_dotted [of 127 9 0 1] isLoopback_dotted [of 10 0 0 1] by simp

text \<open>
  A server started with nothing but a home directory is valid and listens on the loopback
  port the sidecar dials by default.
\<close>

theorem LoadConfig_default_valid:
  assumes "IsAbs home"
  shows "validate (LoadConfig passwd [''HOME'' \<mapsto> home]) = None \<and>
    ListenAddr (LoadConfig passwd [''HOME'' \<mapsto> home]) = ''127.0.0.1:2222''"
proof -
  let ?c = "LoadConfig passwd [''HOME'' \<mapsto> home]"
  have d: "loopbackIPv4 @ CHR '':'' # Itoa defaultPort = ''127.0.0.1:2222''" by code_simp
  have s: "SplitHostPort ''127.0.0.1:2222'' = Ok (''127.0.0.1'', ''2222'')" "Atoi ''2222'' = (2222, None)"
    "isLoopback ''127.0.0.1''" by code_simp+
  have "IsAbs (HostKeyPath ?c)" using IsAbs_defaultHostKeyPath [OF assms]
    by (simp add: LoadConfig_def ssh_env.get_None)
  moreover have "ListenAddr ?c = ''127.0.0.1:2222''" "MaxSessions ?c = 10" "0 \<le> IdleTimeout ?c"
    by (simp_all add: LoadConfig_def ssh_env.get_None ssh_int.get_None ssh_dur.get_None d
        defaultMaxSessions_def defaultIdleTimeout_def duration_units)
  ultimately show ?thesis using s IsAbs_nonempty by (auto simp: validate_def)
qed

theorem LoadConfig_default_valid_witness:
  "validate (LoadConfig None [''HOME'' \<mapsto> ''/home/jovyan'']) = None"
  using LoadConfig_default_valid [of "''/home/jovyan''" None] by (simp add: IsAbs_def HasPrefix_def)

text \<open>
  The warning about ephemeral storage looks at the right filesystem. For an absolute path,
  and where the root can be examined, the walk up ends at the nearest ancestor that exists,
  and the answer is whether that ancestor is on the root's device.
\<close>

theorem isOnRootDevice_nearest:
  assumes "IsAbs path" and "stat rootPath = Some rootInfo"
  shows "\<exists>n info. stat ((Dir ^^ n) path) = Some info \<and> (\<forall>m < n. stat ((Dir ^^ m) path) = None)
    \<and> isOnRootDevice stat path = onSameDevice info rootInfo"
proof -
  from assms obtain info where i: "statNearestAncestor stat path = Some info"
    using statNearestAncestor_abs [of path stat] by (auto simp: rootPath_def)
  from statNearestAncestor_nearest [OF i] obtain n where
    "stat ((Dir ^^ n) path) = Some info" "\<forall>m < n. stat ((Dir ^^ m) path) = None" by (auto simp: nearest_def)
  with i assms(2) show ?thesis by (auto simp: isOnRootDevice_def)
qed

theorem isOnRootDevice_nearest_witness:
  "\<exists>n info. ([''/'' \<mapsto> Stat_t 1, ''/home'' \<mapsto> Stat_t 2]) ((Dir ^^ n) ''/home/u/.ssh'') = Some info
    \<and> isOnRootDevice [''/'' \<mapsto> Stat_t 1, ''/home'' \<mapsto> Stat_t 2] ''/home/u/.ssh'' = onSameDevice info (Stat_t 1)"
proof -
  let ?stat = "[''/'' \<mapsto> Stat_t 1, ''/home'' \<mapsto> Stat_t 2]"
  have "IsAbs ''/home/u/.ssh''" "?stat rootPath = Some (Stat_t 1)"
    by (simp_all add: IsAbs_def HasPrefix_def rootPath_def)
  from isOnRootDevice_nearest [of _ ?stat, OF this] show ?thesis by blast
qed

end
