(* ===== verification/SSH_Forward.thy ===== *)
theory SSH_Forward
  imports SSH_Config
begin

text \<open>
  Port forwarding: the two policy callbacks of \<open>internal/sshserver/server.go\<close> and the
  reverse-forward handler of \<open>internal/sshserver/forward.go\<close>. The functions come first, with
  the network's answers as arguments; the second half is a step relation over any number of
  forward and cancel requests from any number of connections, which share one table. The
  sections under \<open>h.mu\<close> are single steps. A listener is named by the request that opened it.
\<close>

section \<open>Policy\<close>

definition requestTypeForward :: string where "requestTypeForward = ''tcpip-forward''"
definition requestTypeCancelForward :: string where "requestTypeCancelForward = ''cancel-tcpip-forward''"

definition anyBindAddresses :: "string set" where
  "anyBindAddresses = {'''', ''*'', ''0.0.0.0'', ''::''}"

record remoteForwardRequest =
  BindAddr :: string
  BindPort :: "32 word"

definition allowLocalForward :: "string \<Rightarrow> 32 word \<Rightarrow> bool" where
  "allowLocalForward host port = isLoopback host"

definition allowReverseForward :: "string \<Rightarrow> 32 word \<Rightarrow> bool" where
  "allowReverseForward bindHost bindPort = isLoopback bindHost"

definition bind_host :: "string \<Rightarrow> string" where
  "bind_host a = (if a \<in> anyBindAddresses then loopbackIPv4 else a)"

definition forwardKey :: "string \<Rightarrow> int \<Rightarrow> string" where
  "forwardKey host port = JoinHostPort host (Itoa port)"

text \<open>A failed \<open>Atoi\<close> still returns a value, the nearest bound or zero, and the code keeps it.\<close>

definition splitAddr :: "string \<Rightarrow> string \<times> int" where
  "splitAddr a =
     (case SplitHostPort a of
        Err e \<Rightarrow> (a, 0)
      | Ok (host, portStr) \<Rightarrow> (host, fst (Atoi portStr)))"

section \<open>The handler\<close>

text \<open>The table of forwards; listeners are numbers.\<close>

type_synonym table = "string \<rightharpoonup> nat"

text \<open>
  The callback of the server, if it has one, decides; \<open>listen\<close> is \<open>net.Listen\<close> on an address:
  the new listener and the port it got. The result is the listener, the port and the table.
\<close>

definition openForward ::
    "(string \<Rightarrow> 32 word \<Rightarrow> bool) option \<Rightarrow> (string \<Rightarrow> (nat \<times> int) option) \<Rightarrow> remoteForwardRequest \<Rightarrow> table
     \<Rightarrow> (nat \<times> int) option \<times> table" where
  "openForward callback listen payload forwards =
     (let bindHost = bind_host (BindAddr payload) in
      if (case callback of None \<Rightarrow> True | Some allow \<Rightarrow> \<not> allow bindHost (BindPort payload)) then (None, forwards)
      else
        case listen (JoinHostPort bindHost (Itoa (uint (BindPort payload)))) of
          None \<Rightarrow> (None, forwards)
        | Some (listener, boundPort) \<Rightarrow>
            (Some (listener, boundPort), forwards(forwardKey (BindAddr payload) boundPort \<mapsto> listener)))"

text \<open>\<open>closeForward\<close>: the listener it closes, if any, and the table.\<close>

definition closeForward :: "string \<Rightarrow> table \<Rightarrow> nat option \<times> table" where
  "closeForward key forwards =
     (case forwards key of
        None \<Rightarrow> (None, forwards)
      | Some listener \<Rightarrow> (Some listener, forwards(key := None)))"

definition cancelForward :: "remoteForwardRequest \<Rightarrow> table \<Rightarrow> bool \<times> nat option \<times> table" where
  "cancelForward payload forwards =
     (case closeForward (forwardKey (BindAddr payload) (uint (BindPort payload))) forwards of
        (None, forwards') \<Rightarrow> (False, None, forwards')
      | (Some listener, forwards') \<Rightarrow> (True, Some listener, forwards'))"

datatype reply =
    Refused string                  \<comment> \<open>the text of a refused forward, empty otherwise\<close>
  | Accepted                        \<comment> \<open>of a cancel\<close>
  | Bound "32 word"                 \<comment> \<open>\<open>remoteForwardSuccess\<close>\<close>

text \<open>
  \<open>startForward\<close>: the reply, the listener its goroutines serve, one closed again, and the
  table. \<open>hasConn\<close> tells whether the context carries the connection.
\<close>

definition startForward ::
    "(string \<Rightarrow> 32 word \<Rightarrow> bool) option \<Rightarrow> (string \<Rightarrow> (nat \<times> int) option) \<Rightarrow> bool \<Rightarrow> remoteForwardRequest
     \<Rightarrow> table \<Rightarrow> reply \<times> nat option \<times> nat option \<times> table" where
  "startForward callback listen hasConn payload forwards =
     (case openForward callback listen payload forwards of
        (None, forwards') \<Rightarrow> (Refused ''port forwarding is disabled'', None, None, forwards')
      | (Some (listener, boundPort), forwards') \<Rightarrow>
          if \<not> hasConn then
            (case closeForward (forwardKey (BindAddr payload) boundPort) forwards' of
               (closed, forwards'') \<Rightarrow> (Refused '''', None, closed, forwards''))
          else (Bound (word_of_int boundPort), Some listener, None, forwards'))"

text \<open>\<open>HandleSSHRequest\<close>; \<open>payload\<close> is what \<open>gossh.Unmarshal\<close> makes of the request.\<close>

definition HandleSSHRequest ::
    "(string \<Rightarrow> 32 word \<Rightarrow> bool) option \<Rightarrow> (string \<Rightarrow> (nat \<times> int) option) \<Rightarrow> bool \<Rightarrow> string
     \<Rightarrow> remoteForwardRequest option \<Rightarrow> table \<Rightarrow> reply \<times> nat option \<times> nat option \<times> table" where
  "HandleSSHRequest callback listen hasConn reqType payload forwards =
     (case payload of
        None \<Rightarrow> (Refused '''', None, None, forwards)
      | Some p \<Rightarrow>
          if reqType = requestTypeForward then startForward callback listen hasConn p forwards
          else if reqType = requestTypeCancelForward then
            (case cancelForward p forwards of
               (ok, closed, forwards') \<Rightarrow>
                 ((if ok then Accepted else Refused ''''), None, closed, forwards'))
          else (Refused '''', None, None, forwards))"

text \<open>What \<open>acceptLoop\<close> tells the client about an inbound connection.\<close>

record remoteForwardChannelData =
  DestAddr :: string
  DestPort :: "32 word"
  OriginAddr :: string
  OriginPort :: "32 word"

definition channelData :: "string \<Rightarrow> int \<Rightarrow> string \<Rightarrow> remoteForwardChannelData" where
  "channelData requestedAddr boundPort remoteAddr =
     (case splitAddr remoteAddr of
        (originAddr, originPort) \<Rightarrow>
          \<lparr>DestAddr = requestedAddr, DestPort = word_of_int boundPort,
           OriginAddr = originAddr, OriginPort = word_of_int originPort\<rparr>)"

section \<open>Many requests at once\<close>

datatype open_pc =
    Q_Idle
  | Q_Bound       \<comment> \<open>listening, not yet in the table\<close>
  | Q_Recorded    \<comment> \<open>in the table, goroutines not yet started\<close>
  | Q_Done

datatype close_pc =      \<comment> \<open>a goroutine that runs \<open>closeForward\<close> once\<close>
    C_None
  | C_Ready
  | C_Close nat          \<comment> \<open>removed this listener, about to close it\<close>
  | C_Done

datatype loop_pc = L_None | L_Accept | L_Cleanup | L_Exited

record fwd =
  fconn :: "nat \<Rightarrow> nat"              \<comment> \<open>per forward request: its connection, \<close>
  faddr :: "nat \<Rightarrow> string"           \<comment> \<open>the address asked for,\<close>
  fport :: "nat \<Rightarrow> int"              \<comment> \<open>and the port bound\<close>
  opener :: "nat \<Rightarrow> open_pc"
  watcher :: "nat \<Rightarrow> close_pc"       \<comment> \<open>waits for \<open>ctx.Done()\<close>\<close>
  loop :: "nat \<Rightarrow> loop_pc"
  canceller :: "nat \<Rightarrow> close_pc"     \<comment> \<open>per cancel request\<close>
  ckey :: "nat \<Rightarrow> string"
  forwards :: table
  listening :: "nat set"
  gone :: "nat set"                  \<comment> \<open>connections that have ended\<close>

definition fwd_start :: fwd where
  "fwd_start =
     \<lparr>fconn = (\<lambda>_. 0), faddr = (\<lambda>_. ''''), fport = (\<lambda>_. 0), opener = (\<lambda>_. Q_Idle),
      watcher = (\<lambda>_. C_None), loop = (\<lambda>_. L_None), canceller = (\<lambda>_. C_None), ckey = (\<lambda>_. ''''),
      forwards = Map.empty, listening = {}, gone = {}\<rparr>"

definition fwd_init :: "fwd \<Rightarrow> bool" where
  "fwd_init s \<longleftrightarrow> s = fwd_start"

definition fkey :: "fwd \<Rightarrow> nat \<Rightarrow> string" where
  "fkey s r = forwardKey (faddr s r) (fport s r)"

text \<open>
  The kernel refuses to listen twice on one address and port. \<open>faulty\<close> allows \<open>Accept\<close> to fail
  on a listener that nobody has closed, as it does when the process runs out of descriptors.
\<close>

inductive fwd_step :: "bool \<Rightarrow> fwd \<Rightarrow> fwd \<Rightarrow> bool" for faulty :: bool where
  listen: "opener s r = Q_Idle \<Longrightarrow> allowReverseForward (bind_host a) p \<Longrightarrow>
    1 \<le> b \<and> b \<le> 65535 \<and> (p = 0 \<or> b = uint p) \<Longrightarrow>
    \<forall>l \<in> listening s. (bind_host (faddr s l), fport s l) \<noteq> (bind_host a, b) \<Longrightarrow>
    fwd_step faulty s (s\<lparr>opener := (opener s)(r := Q_Bound), fconn := (fconn s)(r := c),
      faddr := (faddr s)(r := a), fport := (fport s)(r := b), listening := insert r (listening s)\<rparr>)"
| insert_table: "opener s r = Q_Bound \<Longrightarrow>
    fwd_step faulty s (s\<lparr>opener := (opener s)(r := Q_Recorded), forwards := (forwards s)(fkey s r \<mapsto> r)\<rparr>)"
| spawn_watcher: "opener s r = Q_Recorded \<Longrightarrow>
    fwd_step faulty s (s\<lparr>opener := (opener s)(r := Q_Done), watcher := (watcher s)(r := C_Ready),
      loop := (loop s)(r := L_Accept)\<rparr>)"
  \<comment> \<open>the connection ends; its watchers run \<open>closeForward\<close> on their keys\<close>
| disconnect: "fwd_step faulty s (s\<lparr>gone := insert c (gone s)\<rparr>)"
| watch_found: "watcher s r = C_Ready \<Longrightarrow> fconn s r \<in> gone s \<Longrightarrow>
    closeForward (fkey s r) (forwards s) = (Some l, t) \<Longrightarrow>
    fwd_step faulty s (s\<lparr>watcher := (watcher s)(r := C_Close l), forwards := t\<rparr>)"
| watch_missing: "watcher s r = C_Ready \<Longrightarrow> fconn s r \<in> gone s \<Longrightarrow>
    closeForward (fkey s r) (forwards s) = (None, t) \<Longrightarrow>
    fwd_step faulty s (s\<lparr>watcher := (watcher s)(r := C_Done), forwards := t\<rparr>)"
| watch_close: "watcher s r = C_Close l \<Longrightarrow>
    fwd_step faulty s (s\<lparr>watcher := (watcher s)(r := C_Done), listening := listening s - {l}\<rparr>)"
  \<comment> \<open>a cancel request\<close>
| cancel: "canceller s k = C_None \<Longrightarrow>
    fwd_step faulty s (s\<lparr>canceller := (canceller s)(k := C_Ready), ckey := (ckey s)(k := key)\<rparr>)"
| cancel_found: "canceller s k = C_Ready \<Longrightarrow> closeForward (ckey s k) (forwards s) = (Some l, t) \<Longrightarrow>
    fwd_step faulty s (s\<lparr>canceller := (canceller s)(k := C_Close l), forwards := t\<rparr>)"
| cancel_missing: "canceller s k = C_Ready \<Longrightarrow> closeForward (ckey s k) (forwards s) = (None, t) \<Longrightarrow>
    fwd_step faulty s (s\<lparr>canceller := (canceller s)(k := C_Done), forwards := t\<rparr>)"
| cancel_close: "canceller s k = C_Close l \<Longrightarrow>
    fwd_step faulty s (s\<lparr>canceller := (canceller s)(k := C_Done), listening := listening s - {l}\<rparr>)"
  \<comment> \<open>the accept loop\<close>
| accept_closed: "loop s r = L_Accept \<Longrightarrow> r \<notin> listening s \<Longrightarrow>
    fwd_step faulty s (s\<lparr>loop := (loop s)(r := L_Cleanup)\<rparr>)"
| accept_fails: "loop s r = L_Accept \<Longrightarrow> faulty \<Longrightarrow>
    fwd_step faulty s (s\<lparr>loop := (loop s)(r := L_Cleanup)\<rparr>)"
| cleanup: "loop s r = L_Cleanup \<Longrightarrow>
    fwd_step faulty s (s\<lparr>loop := (loop s)(r := L_Exited),
      forwards := (if forwards s (fkey s r) = Some r then (forwards s)(fkey s r := None) else forwards s)\<rparr>)"

subsection \<open>One relayed connection\<close>

text \<open>
  \<open>relay\<close> opens a channel for an inbound connection and starts a copying goroutine for each
  direction. \<open>Y_Copy\<close> is inside \<open>io.Copy\<close>; the deferred calls close the inbound connection
  first and the channel after it. A copy returns when its source ends or an operation fails,
  and it must return once either end is closed.
\<close>

datatype copy_pc = Y_None | Y_Copy | Y_Close_inbound | Y_Close_channel | Y_Done

datatype relay_pc = W_Open | W_Refused | W_Returned

record relayed =
  relaying :: relay_pc
  to_client :: copy_pc        \<comment> \<open>\<open>io.Copy(channel, inbound)\<close>\<close>
  to_peer :: copy_pc          \<comment> \<open>\<open>io.Copy(inbound, channel)\<close>\<close>
  inbound_open :: bool
  channel_open :: bool

definition relay_init :: "relayed \<Rightarrow> bool" where
  "relay_init s \<longleftrightarrow> s = \<lparr>relaying = W_Open, to_client = Y_None, to_peer = Y_None, inbound_open = True, channel_open = False\<rparr>"

inductive relay_step :: "relayed \<Rightarrow> relayed \<Rightarrow> bool" where
  refused: "relaying s = W_Open \<Longrightarrow> relay_step s (s\<lparr>relaying := W_Refused\<rparr>)"
| drop_inbound: "relaying s = W_Refused \<Longrightarrow> relay_step s (s\<lparr>relaying := W_Returned, inbound_open := False\<rparr>)"
| spawn_copies: "relaying s = W_Open \<Longrightarrow>
    relay_step s (s\<lparr>relaying := W_Returned, to_client := Y_Copy, to_peer := Y_Copy, channel_open := True\<rparr>)"
| client_copied: "to_client s = Y_Copy \<Longrightarrow> relay_step s (s\<lparr>to_client := Y_Close_inbound\<rparr>)"
| client_inbound: "to_client s = Y_Close_inbound \<Longrightarrow>
    relay_step s (s\<lparr>to_client := Y_Close_channel, inbound_open := False\<rparr>)"
| client_channel: "to_client s = Y_Close_channel \<Longrightarrow>
    relay_step s (s\<lparr>to_client := Y_Done, channel_open := False\<rparr>)"
| peer_copied: "to_peer s = Y_Copy \<Longrightarrow> relay_step s (s\<lparr>to_peer := Y_Close_inbound\<rparr>)"
| peer_inbound: "to_peer s = Y_Close_inbound \<Longrightarrow>
    relay_step s (s\<lparr>to_peer := Y_Close_channel, inbound_open := False\<rparr>)"
| peer_channel: "to_peer s = Y_Close_channel \<Longrightarrow>
    relay_step s (s\<lparr>to_peer := Y_Done, channel_open := False\<rparr>)"

section \<open>Lemmas\<close>

text \<open>Different hosts or ports never share a key.\<close>

lemma forwardKey_inject [simp]: "forwardKey h p = forwardKey h' p' \<longleftrightarrow> h = h' \<and> p = p'"
  using JoinHostPort_inject [of h "Itoa p" h' "Itoa p'"] by (auto simp: forwardKey_def)

lemma bind_host_loopback: "a \<in> anyBindAddresses \<Longrightarrow> isLoopback (bind_host a)"
proof -
  have "isLoopback loopbackIPv4" by code_simp
  then show "a \<in> anyBindAddresses \<Longrightarrow> ?thesis" by (simp add: bind_host_def)
qed

text \<open>
  What the client is told of an inbound connection: the address it asked for, with the port
  bound, and the peer's own address and port.
\<close>

lemma channelData_faithful:
  assumes "CHR ''['' \<notin> set h" and "CHR '']'' \<notin> set h" and "0 \<le> p" and "p \<le> 65535" and "0 \<le> b" and "b \<le> 65535"
  shows "channelData asked b (JoinHostPort h (Itoa p)) =
    \<lparr>DestAddr = asked, DestPort = word_of_int b, OriginAddr = h, OriginPort = word_of_int p\<rparr> \<and>
    uint (DestPort (channelData asked b (JoinHostPort h (Itoa p)))) = b \<and>
    uint (OriginPort (channelData asked b (JoinHostPort h (Itoa p)))) = p"
proof -
  have "CHR '']'' \<notin> set (Itoa p)" using Itoa_chars [of "CHR '']''" p] by (auto simp: is_digit_def)
  then have "SplitHostPort (JoinHostPort h (Itoa p)) = Ok (h, Itoa p)"
    using assms by (intro SplitHostPort_JoinHostPort) simp_all
  moreover have "Atoi (Itoa p) = (p, None)"
    using assms by (simp add: Atoi_Itoa int64_ok_def minInt64_def maxInt64_def)
  ultimately show ?thesis
    using assms by (simp add: channelData_def splitAddr_def uint_word_of_int take_bit_eq_mod)
qed

text \<open>A request that is malformed, of another type or not granted leaves the table as it is.\<close>

lemma HandleSSHRequest_refused:
  assumes "HandleSSHRequest (Some allowReverseForward) listen hasConn typ payload tab = (Refused msg, l, closed, tab')"
    and "hasConn"
  shows "tab' = tab \<and> l = None \<and> closed = None"
  using assms
  by (auto simp: HandleSSHRequest_def startForward_def openForward_def cancelForward_def closeForward_def
      allowReverseForward_def Let_def split: option.splits if_splits prod.splits)

subsection \<open>The invariant of the table\<close>

definition entries_ok :: "fwd \<Rightarrow> bool" where
  "entries_ok s \<longleftrightarrow> (\<forall>key l. forwards s key = Some l \<longrightarrow>
     key = fkey s l \<and> l \<in> listening s \<and> opener s l \<in> {Q_Recorded, Q_Done})"

definition listeners_ok :: "fwd \<Rightarrow> bool" where
  "listeners_ok s \<longleftrightarrow>
     (\<forall>l \<in> listening s. opener s l \<noteq> Q_Idle \<and> isLoopback (bind_host (faddr s l))) \<and>
     (\<forall>l \<in> listening s. \<forall>l' \<in> listening s. faddr s l = faddr s l' \<and> fport s l = fport s l' \<longrightarrow> l = l') \<and>
     (\<forall>l. opener s l = Q_Bound \<longrightarrow> l \<in> listening s)"

fun close_target :: "close_pc \<Rightarrow> nat option" where
  "close_target (C_Close l) = Some l"
| "close_target _ = None"

definition closers_ok :: "fwd \<Rightarrow> bool" where
  "closers_ok s \<longleftrightarrow>
     (\<forall>r l. close_target (watcher s r) = Some l \<longrightarrow> opener s l \<in> {Q_Recorded, Q_Done} \<and> forwards s (fkey s l) \<noteq> Some l) \<and>
     (\<forall>k l. close_target (canceller s k) = Some l \<longrightarrow> opener s l \<in> {Q_Recorded, Q_Done} \<and> forwards s (fkey s l) \<noteq> Some l) \<and>
     (\<forall>r. watcher s r \<noteq> C_None \<longrightarrow> opener s r = Q_Done) \<and>
     (\<forall>r. loop s r \<noteq> L_None \<longrightarrow> opener s r = Q_Done)"

lemma closeForward_SomeD:
  "closeForward key f = (Some l, t) \<Longrightarrow> f key = Some l \<and> t = f(key := None)"
  by (auto simp: closeForward_def split: option.splits)

lemma closeForward_NoneD: "closeForward key f = (None, t) \<Longrightarrow> f key = None \<and> t = f"
  by (auto simp: closeForward_def split: option.splits)

lemmas closeForward_D = closeForward_SomeD closeForward_NoneD

lemma entries_okD:
  "entries_ok s \<Longrightarrow> forwards s key = Some l \<Longrightarrow>
   key = fkey s l \<and> l \<in> listening s \<and> opener s l \<in> {Q_Recorded, Q_Done}"
  by (simp add: entries_ok_def)

lemma closers_okD:
  assumes "closers_ok s" and "watcher s r = C_Close l \<or> canceller s k = C_Close l"
  shows "opener s l \<in> {Q_Recorded, Q_Done} \<and> forwards s (fkey s l) \<noteq> Some l"
  using assms unfolding closers_ok_def by (metis close_target.simps(1))

text \<open>A listener that is being closed is not in the table.\<close>

lemma closing_not_in_table:
  assumes "entries_ok s" and "closers_ok s" and "watcher s r = C_Close l \<or> canceller s k = C_Close l"
  shows "forwards s key \<noteq> Some l"
  using entries_okD [OF assms(1), of key l] closers_okD [OF assms(2,3)] by auto

lemma entries_ok_close:
  assumes "entries_ok s" and "\<And>key. forwards s key \<noteq> Some l"
    and "forwards t = forwards s" and "listening t = listening s - {l}" and "opener t = opener s"
    and "faddr t = faddr s" and "fport t = fport s"
  shows "entries_ok t"
  unfolding entries_ok_def
proof (intro allI impI)
  fix key l'
  assume "forwards t key = Some l'"
  then have f: "forwards s key = Some l'" by (simp add: assms(3))
  with assms(2) have "l' \<noteq> l" by auto
  with entries_okD [OF assms(1) f] show
    "key = fkey t l' \<and> l' \<in> listening t \<and> opener t l' \<in> {Q_Recorded, Q_Done}"
    by (simp add: assms(3-7) fkey_def)
qed

text \<open>Steps that add no entry, close no listener and change no recorded request.\<close>

lemma entries_ok_sub:
  assumes "entries_ok s" and "forwards t \<subseteq>\<^sub>m forwards s" and "listening s \<subseteq> listening t"
    and "\<And>l. opener s l \<in> {Q_Recorded, Q_Done} \<Longrightarrow>
      opener t l \<in> {Q_Recorded, Q_Done} \<and> faddr t l = faddr s l \<and> fport t l = fport s l"
  shows "entries_ok t"
  unfolding entries_ok_def
proof (intro allI impI)
  fix key l
  assume "forwards t key = Some l"
  with assms(2) have f: "forwards s key = Some l" by (metis domI map_le_def)
  note e = entries_okD [OF assms(1) f]
  then have "opener s l \<in> {Q_Recorded, Q_Done}" by blast
  from assms(4) [OF this] e assms(3)
  show "key = fkey t l \<and> l \<in> listening t \<and> opener t l \<in> {Q_Recorded, Q_Done}"
    unfolding fkey_def by force
qed

lemma map_le_minus: "m(k := None) \<subseteq>\<^sub>m m"
  by (simp add: map_le_def)

lemma entries_ok_insert:
  assumes "entries_ok s" and "opener s r = Q_Bound" and "r \<in> listening s"
    and "forwards t = (forwards s)(fkey s r \<mapsto> r)" and "opener t = (opener s)(r := Q_Recorded)"
    and "faddr t = faddr s" and "fport t = fport s" and "listening t = listening s"
  shows "entries_ok t"
  unfolding entries_ok_def
proof (intro allI impI)
  have k: "fkey t = fkey s" by (simp add: fkey_def fun_eq_iff assms(6,7))
  fix key l
  assume "forwards t key = Some l"
  then consider "key = fkey s r" "l = r" | "forwards s key = Some l"
    unfolding assms(4) by (cases "key = fkey s r") simp_all
  then show "key = fkey t l \<and> l \<in> listening t \<and> opener t l \<in> {Q_Recorded, Q_Done}"
  proof cases
    case 1
    then show ?thesis by (simp add: k assms(3,5,8))
  next
    case 2
    from entries_okD [OF assms(1) 2] show ?thesis unfolding k assms(5,8) using assms(2) by auto
  qed
qed

lemma entries_ok_step:
  assumes "fwd_step faulty s t" and "entries_ok s" and "listeners_ok s" and "closers_ok s"
  shows "entries_ok t"
  using assms
proof (induction rule: fwd_step.induct)
  case (watch_close s r l)
  then have "forwards s key \<noteq> Some l" for key using closing_not_in_table [of s r l] by simp
  then show ?case by (rule entries_ok_close [OF watch_close.prems(1)]) simp_all
next
  case (cancel_close s k l)
  then have "forwards s key \<noteq> Some l" for key using closing_not_in_table [of s _ l k] by simp
  then show ?case by (rule entries_ok_close [OF cancel_close.prems(1)]) simp_all
next
  case (insert_table s r)
  then have "r \<in> listening s" by (simp add: listeners_ok_def)
  with insert_table show ?case by (auto intro: entries_ok_insert [OF insert_table.prems(1)])
qed (rule entries_ok_sub, assumption,
      auto simp: map_le_minus dest!: closeForward_D)+

lemma listeners_ok_step:
  "fwd_step faulty s t \<Longrightarrow> closers_ok s \<Longrightarrow> listeners_ok s \<Longrightarrow> listeners_ok t"
proof (induction rule: fwd_step.induct)
  case (listen s r c a p b)
  then show ?case by (auto simp: listeners_ok_def allowReverseForward_def)
next
  case (watch_close s r l)
  then show ?case using closers_okD [of s r l] by (auto simp: listeners_ok_def)
next
  case (cancel_close s k l)
  then show ?case using closers_okD [of s _ l k] by (auto simp: listeners_ok_def)
qed (auto simp: listeners_ok_def split: if_splits)

lemma fkey_upd [simp]:
  "fkey (s\<lparr>opener := x1\<rparr>) = fkey s" "fkey (s\<lparr>watcher := x2\<rparr>) = fkey s" "fkey (s\<lparr>loop := x3\<rparr>) = fkey s"
  "fkey (s\<lparr>canceller := x4\<rparr>) = fkey s" "fkey (s\<lparr>ckey := x5\<rparr>) = fkey s" "fkey (s\<lparr>forwards := x6\<rparr>) = fkey s"
  "fkey (s\<lparr>listening := x7\<rparr>) = fkey s" "fkey (s\<lparr>gone := x8\<rparr>) = fkey s" "fkey (s\<lparr>fconn := x9\<rparr>) = fkey s"
  by (simp_all add: fkey_def fun_eq_iff)

lemma close_target_iff [simp]: "close_target pc = Some l \<longleftrightarrow> pc = C_Close l"
  by (cases pc) auto

lemma closers_ok_step:
  assumes "fwd_step faulty s t" and "entries_ok s" and "closers_ok s"
  shows "closers_ok t"
  using assms
proof (induction rule: fwd_step.induct)
  case (listen s r c a p b)
  then have "watcher s k \<noteq> C_Close r" "canceller s k \<noteq> C_Close r" for k
    using closers_okD [OF listen.prems(2), of k r k] by auto
  with listen show ?case by (auto simp: closers_ok_def fkey_def)
next
  case (insert_table s r)
  then have "watcher s k \<noteq> C_Close r" "canceller s k \<noteq> C_Close r" for k
    using closers_okD [OF insert_table.prems(2), of k r k] by auto
  with insert_table show ?case by (auto simp: closers_ok_def)
next
  case (watch_found s r l t)
  then have f: "forwards s (fkey s r) = Some l" "t = (forwards s)(fkey s r := None)"
    by (auto dest: closeForward_D)
  from entries_okD [OF watch_found.prems(1) f(1)] watch_found f show ?case
    by (auto simp: closers_ok_def)
next
  case (cancel_found s k l t)
  then have f: "forwards s (ckey s k) = Some l" "t = (forwards s)(ckey s k := None)"
    by (auto dest: closeForward_D)
  from entries_okD [OF cancel_found.prems(1) f(1)] cancel_found f show ?case
    by (auto simp: closers_ok_def)
qed (auto simp: closers_ok_def dest!: closeForward_D)

subsection \<open>No listener is lost\<close>

text \<open>Some goroutine has taken the listener out of the table and is about to close it.\<close>

definition pending :: "fwd \<Rightarrow> nat \<Rightarrow> bool" where
  "pending s l \<longleftrightarrow> (\<exists>r. watcher s r = C_Close l) \<or> (\<exists>k. canceller s k = C_Close l)"

definition tracked :: "fwd \<Rightarrow> nat \<Rightarrow> bool" where
  "tracked s l \<longleftrightarrow> opener s l = Q_Bound \<or> forwards s (fkey s l) = Some l \<or> pending s l"

definition tracked_ok :: "fwd \<Rightarrow> bool" where
  "tracked_ok s \<longleftrightarrow> (\<forall>l \<in> listening s. tracked s l)"

fun closed_once :: "close_pc \<Rightarrow> bool" where
  "closed_once (C_Close l) = True"
| "closed_once C_Done = True"
| "closed_once _ = False"

definition watch_ok :: "fwd \<Rightarrow> bool" where
  "watch_ok s \<longleftrightarrow>
     (\<forall>r. closed_once (watcher s r) \<longrightarrow> forwards s (fkey s r) \<noteq> Some r) \<and>
     (\<forall>r. opener s r = Q_Done \<longrightarrow> watcher s r \<noteq> C_None)"

fun loop_over :: "loop_pc \<Rightarrow> bool" where
  "loop_over L_Cleanup = True"
| "loop_over L_Exited = True"
| "loop_over _ = False"

definition loops_ok :: "fwd \<Rightarrow> bool" where
  "loops_ok s \<longleftrightarrow> (\<forall>r. loop_over (loop s r) \<longrightarrow> r \<notin> listening s)"

lemma watch_ok_step:
  assumes "fwd_step faulty s t" and "closers_ok s" and "watch_ok s"
  shows "watch_ok t"
proof -
  have w: "watcher s r = C_None" if "opener s r \<noteq> Q_Done" for r
    using assms(2) that by (auto simp: closers_ok_def)
  from assms(1,3) w show ?thesis
    by (induction rule: fwd_step.induct) (auto simp: watch_ok_def fkey_def dest!: closeForward_D split: if_splits)
qed

lemma loops_ok_step:
  assumes "fwd_step False s t" and "closers_ok s" and "loops_ok s"
  shows "loops_ok t"
proof -
  have "loop s r = L_None" if "opener s r \<noteq> Q_Done" for r
    using assms(2) that by (auto simp: closers_ok_def)
  with assms(1,3) show ?thesis
    by (induction rule: fwd_step.induct) (auto simp: loops_ok_def split: if_splits)
qed

lemma no_overwrite:
  assumes "entries_ok s" and "listeners_ok s" and "opener s r = Q_Bound"
  shows "forwards s (fkey s r) = None"
proof (rule ccontr)
  assume "forwards s (fkey s r) \<noteq> None"
  then obtain l where l: "forwards s (fkey s r) = Some l" by auto
  note e = entries_okD [OF assms(1) l]
  then have "faddr s r = faddr s l \<and> fport s r = fport s l" by (simp add: fkey_def)
  with e assms(2,3) have "r = l" by (auto simp: listeners_ok_def)
  with e assms(3) show False by auto
qed

lemma watcher_keeps:
  assumes "fwd_step faulty s t" and "closers_ok s" and "watcher s r = C_Close l" and "l \<in> listening t"
  shows "watcher t r = C_Close l"
proof -
  from assms(2,3) have "opener s r = Q_Done" by (auto simp: closers_ok_def)
  with assms(1,3,4) show ?thesis by (induction rule: fwd_step.induct) auto
qed

lemma canceller_keeps:
  assumes "fwd_step faulty s t" and "canceller s k = C_Close l" and "l \<in> listening t"
  shows "canceller t k = C_Close l"
  using assms by (induction rule: fwd_step.induct) auto

lemma pending_step:
  "fwd_step faulty s t \<Longrightarrow> closers_ok s \<Longrightarrow> pending s l \<Longrightarrow> l \<in> listening t \<Longrightarrow> pending t l"
  unfolding pending_def by (metis watcher_keeps canceller_keeps)

text \<open>An entry stays until somebody takes it out, or its own accept loop cleans up.\<close>

lemma entry_step:
  assumes "fwd_step faulty s t" and "entries_ok s" and "listeners_ok s" and "forwards s (fkey s l) = Some l"
  shows "forwards t (fkey t l) = Some l \<or> pending t l \<or> loop s l = L_Cleanup"
proof -
  from entries_okD [OF assms(2,4)] have op: "opener s l \<noteq> Q_Idle" "opener s l \<noteq> Q_Bound" by auto
  from assms(1) show ?thesis
  proof cases
    case (listen r c a p b)
    with op assms(4) show ?thesis by (auto simp: fkey_def)
  next
    case (insert_table r)
    with no_overwrite [OF assms(2,3), of r] op assms(4) show ?thesis by auto
  next
    case (watch_found r l' f)
    then have "forwards s (fkey s r) = Some l'" "f = (forwards s)(fkey s r := None)"
      by (auto dest: closeForward_D)
    with watch_found assms(4) show ?thesis by (cases "fkey s r = fkey s l") (auto simp: pending_def)
  next
    case (cancel_found k l' f)
    then have "forwards s (ckey s k) = Some l'" "f = (forwards s)(ckey s k := None)"
      by (auto dest: closeForward_D)
    with cancel_found assms(4) show ?thesis by (cases "ckey s k = fkey s l") (auto simp: pending_def)
  next
    case (cleanup r)
    then show ?thesis using assms(4) by (cases "r = l") auto
  qed (use assms(4) in \<open>auto dest!: closeForward_D\<close>)
qed

lemma bound_step:
  assumes "fwd_step faulty s t" and "opener s l = Q_Bound"
  shows "opener t l = Q_Bound \<or> forwards t (fkey t l) = Some l"
  using assms by (induction rule: fwd_step.induct) auto

lemma listening_step:
  assumes "fwd_step faulty s t" and "l \<in> listening t"
  shows "l \<in> listening s \<or> opener t l = Q_Bound"
  using assms by (induction rule: fwd_step.induct) auto

lemma tracked_ok_step:
  assumes "fwd_step False s t" and "entries_ok s" and "listeners_ok s" and "closers_ok s"
    and "loops_ok s" and "tracked_ok s"
  shows "tracked_ok t"
  unfolding tracked_ok_def
proof
  fix l
  assume l: "l \<in> listening t"
  show "tracked t l"
  proof (cases "l \<in> listening s")
    case False
    with listening_step [OF assms(1) l] show ?thesis by (simp add: tracked_def)
  next
    case True
    with assms(6) have "tracked s l" by (simp add: tracked_ok_def)
    then consider "opener s l = Q_Bound" | "forwards s (fkey s l) = Some l" | "pending s l"
      by (auto simp: tracked_def)
    then show ?thesis
    proof cases
      case 1
      from bound_step [OF assms(1) 1] show ?thesis by (auto simp: tracked_def)
    next
      case 2
      have "loop s l \<noteq> L_Cleanup" using assms(5) True by (auto simp: loops_ok_def)
      with entry_step [OF assms(1-3) 2] show ?thesis by (auto simp: tracked_def)
    next
      case 3
      from pending_step [OF assms(1,4) 3 l] show ?thesis by (simp add: tracked_def)
    qed
  qed
qed

definition fwd_inv :: "fwd \<Rightarrow> bool" where
  "fwd_inv s \<longleftrightarrow> entries_ok s \<and> listeners_ok s \<and> closers_ok s \<and> watch_ok s"

definition fwd_inv_strict :: "fwd \<Rightarrow> bool" where
  "fwd_inv_strict s \<longleftrightarrow> fwd_inv s \<and> loops_ok s \<and> tracked_ok s"

lemma fwd_inv_step: "fwd_step faulty s t \<Longrightarrow> fwd_inv s \<Longrightarrow> fwd_inv t"
  by (auto simp: fwd_inv_def intro: entries_ok_step listeners_ok_step closers_ok_step watch_ok_step)

lemma fwd_inv_start: "fwd_inv_strict fwd_start"
  by (simp add: fwd_inv_strict_def fwd_inv_def fwd_start_def entries_ok_def listeners_ok_def closers_ok_def
      watch_ok_def loops_ok_def tracked_ok_def)

interpretation fwd_sys: invariant_system fwd_init "fwd_step faulty" fwd_inv for faulty
  using fwd_inv_start
  by unfold_locales (auto simp: fwd_init_def fwd_inv_strict_def intro: fwd_inv_step)

interpretation fwd_strict: invariant_system fwd_init "fwd_step False" fwd_inv_strict
  using fwd_inv_start
  by unfold_locales
    (auto simp: fwd_init_def fwd_inv_strict_def fwd_inv_def
      intro: entries_ok_step listeners_ok_step closers_ok_step watch_ok_step loops_ok_step tracked_ok_step)

text \<open>A listener whose connection has ended can be closed by the goroutines there are.\<close>

lemma pending_closes: "pending s l \<Longrightarrow> \<exists>t. (fwd_step faulty)\<^sup>*\<^sup>* s t \<and> l \<notin> listening t"
proof -
  assume "pending s l"
  then consider r where "watcher s r = C_Close l" | k where "canceller s k = C_Close l"
    by (auto simp: pending_def)
  then have "\<exists>t. fwd_step faulty s t \<and> l \<notin> listening t"
  proof cases
    case (1 r)
    then show ?thesis by (intro exI conjI, rule fwd_step.watch_close) auto
  next
    case (2 k)
    then show ?thesis by (intro exI conjI, rule fwd_step.cancel_close) auto
  qed
  then show ?thesis by blast
qed

lemma gone_closes:
  assumes "fwd_inv_strict s" and "opener s l = Q_Done" and "fconn s l \<in> gone s"
  shows "\<exists>t. (fwd_step faulty)\<^sup>*\<^sup>* s t \<and> l \<notin> listening t"
proof (cases "l \<in> listening s \<and> \<not> pending s l")
  case False
  then show ?thesis using pending_closes by blast
next
  case True
  with assms have tab: "forwards s (fkey s l) = Some l"
    by (auto simp: fwd_inv_strict_def tracked_ok_def tracked_def)
  with assms have "watcher s l = C_Ready"
    by (cases "watcher s l") (auto simp: fwd_inv_strict_def fwd_inv_def watch_ok_def)
  moreover from tab have "closeForward (fkey s l) (forwards s) = (Some l, (forwards s)(fkey s l := None))"
    by (simp add: closeForward_def)
  ultimately have step: "fwd_step faulty s (s\<lparr>watcher := (watcher s)(l := C_Close l),
      forwards := (forwards s)(fkey s l := None)\<rparr>)"
    using assms(3) by (intro fwd_step.watch_found)
  have "pending (s\<lparr>watcher := (watcher s)(l := C_Close l), forwards := (forwards s)(fkey s l := None)\<rparr>) l"
    by (auto simp: pending_def)
  from pending_closes [OF this] step show ?thesis by (meson rtranclp_stepI)
qed

subsection \<open>Runs\<close>

lemma reach_fwd_start: "reach fwd_init (fwd_step faulty) fwd_start"
  by (simp add: reach_init fwd_init_def)

text \<open>One forward of connection 1 to port 3000, open.\<close>

definition fwd_one :: fwd where
  "fwd_one = fwd_start\<lparr>opener := (\<lambda>_. Q_Idle)(0 := Q_Done), fconn := (\<lambda>_. 0)(0 := 1),
     faddr := (\<lambda>_. '''')(0 := ''localhost''), fport := (\<lambda>_. 0)(0 := 3000), listening := {0},
     forwards := [forwardKey ''localhost'' 3000 \<mapsto> 0], watcher := (\<lambda>_. C_None)(0 := C_Ready),
     loop := (\<lambda>_. L_None)(0 := L_Accept)\<rparr>"

lemma allow_localhost: "allowReverseForward (bind_host ''localhost'') p"
  by (simp add: allowReverseForward_def bind_host_def anyBindAddresses_def isLoopback_def localhostHost_def)

lemma reach_fwd_one: "reach fwd_init (fwd_step faulty) fwd_one"
proof -
  let ?a = "fwd_start\<lparr>opener := (opener fwd_start)(0 := Q_Bound), fconn := (fconn fwd_start)(0 := 1),
      faddr := (faddr fwd_start)(0 := ''localhost''), fport := (fport fwd_start)(0 := 3000),
      listening := insert 0 (listening fwd_start)\<rparr>"
  let ?b = "?a\<lparr>opener := (opener ?a)(0 := Q_Recorded), forwards := (forwards ?a)(fkey ?a 0 \<mapsto> 0)\<rparr>"
  let ?c = "?b\<lparr>opener := (opener ?b)(0 := Q_Done), watcher := (watcher ?b)(0 := C_Ready),
      loop := (loop ?b)(0 := L_Accept)\<rparr>"
  have ra: "reach fwd_init (fwd_step faulty) ?a"
    by (rule reach_step [OF reach_fwd_start], rule fwd_step.listen [where p = 3000]) (simp_all add: fwd_start_def allow_localhost)
  have rb: "reach fwd_init (fwd_step faulty) ?b"
    by (rule reach_step [OF ra], rule fwd_step.insert_table) simp
  have rc: "reach fwd_init (fwd_step faulty) ?c"
    by (rule reach_step [OF rb], rule fwd_step.spawn_watcher) simp
  have "?c = fwd_one" by (simp add: fwd_one_def fwd_start_def fkey_def)
  with rc show ?thesis by (simp only:)
qed

text \<open>
  The run behind the wrong close: connection 1 cancels its forward, connection 2 opens one on
  the same address, and then connection 1 ends.
\<close>

definition fwd_cancelled :: fwd where
  "fwd_cancelled = fwd_one\<lparr>listening := {}, forwards := Map.empty, canceller := (\<lambda>_. C_None)(0 := C_Done),
     ckey := (\<lambda>_. '''')(0 := forwardKey ''localhost'' 3000)\<rparr>"

definition fwd_taken :: fwd where
  "fwd_taken = fwd_cancelled\<lparr>opener := (opener fwd_one)(1 := Q_Done), fconn := (fconn fwd_one)(1 := 2),
     faddr := (faddr fwd_one)(1 := ''localhost''), fport := (fport fwd_one)(1 := 3000), listening := {1},
     forwards := [forwardKey ''localhost'' 3000 \<mapsto> 1], watcher := (watcher fwd_one)(1 := C_Ready),
     loop := (loop fwd_one)(1 := L_Accept), gone := {1}\<rparr>"

lemma reach_fwd_cancelled: "reach fwd_init (fwd_step faulty) fwd_cancelled"
proof -
  let ?K = "forwardKey ''localhost'' 3000"
  let ?a = "fwd_one\<lparr>canceller := (canceller fwd_one)(0 := C_Ready), ckey := (ckey fwd_one)(0 := ?K)\<rparr>"
  let ?b = "?a\<lparr>canceller := (canceller ?a)(0 := C_Close 0), forwards := Map.empty\<rparr>"
  let ?c = "?b\<lparr>canceller := (canceller ?b)(0 := C_Done), listening := listening ?b - {0}\<rparr>"
  have ra: "reach fwd_init (fwd_step faulty) ?a"
    by (rule reach_step [OF reach_fwd_one], rule fwd_step.cancel) (simp add: fwd_one_def fwd_start_def)
  have rb: "reach fwd_init (fwd_step faulty) ?b"
    by (rule reach_step [OF ra], rule fwd_step.cancel_found) (simp_all add: fwd_one_def closeForward_def)
  have rc: "reach fwd_init (fwd_step faulty) ?c"
    by (rule reach_step [OF rb], rule fwd_step.cancel_close) simp
  have "?c = fwd_cancelled" by (simp add: fwd_cancelled_def fwd_one_def fwd_start_def)
  with rc show ?thesis by (simp only:)
qed

lemma reach_fwd_taken: "reach fwd_init (fwd_step faulty) fwd_taken"
proof -
  let ?c = fwd_cancelled
  let ?d = "?c\<lparr>opener := (opener ?c)(1 := Q_Bound), fconn := (fconn ?c)(1 := 2),
      faddr := (faddr ?c)(1 := ''localhost''), fport := (fport ?c)(1 := 3000),
      listening := insert 1 (listening ?c)\<rparr>"
  let ?e = "?d\<lparr>opener := (opener ?d)(1 := Q_Recorded), forwards := (forwards ?d)(fkey ?d 1 \<mapsto> 1)\<rparr>"
  let ?f = "?e\<lparr>opener := (opener ?e)(1 := Q_Done), watcher := (watcher ?e)(1 := C_Ready),
      loop := (loop ?e)(1 := L_Accept)\<rparr>"
  let ?g = "?f\<lparr>gone := insert 1 (gone ?f)\<rparr>"
  have rd: "reach fwd_init (fwd_step faulty) ?d"
    by (rule reach_step [OF reach_fwd_cancelled], rule fwd_step.listen [where p = 3000])
      (simp_all add: fwd_cancelled_def fwd_one_def fwd_start_def allow_localhost)
  have re: "reach fwd_init (fwd_step faulty) ?e"
    by (rule reach_step [OF rd], rule fwd_step.insert_table) simp
  have rf: "reach fwd_init (fwd_step faulty) ?f"
    by (rule reach_step [OF re], rule fwd_step.spawn_watcher) simp
  have rg: "reach fwd_init (fwd_step faulty) ?g"
    by (rule reach_step [OF rf], rule fwd_step.disconnect)
  have "?g = fwd_taken"
    by (simp add: fwd_taken_def fwd_cancelled_def fwd_one_def fwd_start_def fkey_def)
  with rg show ?thesis by (simp only:)
qed

lemma fwd_taken_fields:
  "watcher fwd_taken 0 = C_Ready" "fconn fwd_taken 0 = 1" "fconn fwd_taken 1 = 2" "gone fwd_taken = {1}"
  "listening fwd_taken = {1}" "fkey fwd_taken 0 = forwardKey ''localhost'' 3000"
  "forwards fwd_taken = [forwardKey ''localhost'' 3000 \<mapsto> 1]"
  by (simp_all add: fwd_taken_def fwd_one_def fkey_def)

text \<open>
  The run behind the lost listener: \<open>Accept\<close> fails while the listener is open, and the loop
  takes its entry out of the table.
\<close>

definition fwd_lost :: fwd where
  "fwd_lost = fwd_one\<lparr>loop := (loop fwd_one)(0 := L_Exited), forwards := Map.empty\<rparr>"

lemma reach_fwd_lost: "reach fwd_init (fwd_step True) fwd_lost"
proof -
  let ?a = "fwd_one\<lparr>loop := (loop fwd_one)(0 := L_Cleanup)\<rparr>"
  have ra: "reach fwd_init (fwd_step True) ?a"
    by (rule reach_step [OF reach_fwd_one], rule fwd_step.accept_fails) (simp_all add: fwd_one_def)
  have "fwd_step True ?a (?a\<lparr>loop := (loop ?a)(0 := L_Exited),
      forwards := (if forwards ?a (fkey ?a 0) = Some 0 then (forwards ?a)(fkey ?a 0 := None) else forwards ?a)\<rparr>)"
    by (rule fwd_step.cleanup) simp
  moreover have "\<dots> = fwd_lost" by (simp add: fwd_lost_def fwd_one_def fkey_def)
  ultimately show ?thesis using ra reach_step by metis
qed

text \<open>A listener that is in no table, and that no closer holds, stays open.\<close>

definition lost :: "nat \<Rightarrow> fwd \<Rightarrow> bool" where
  "lost l s \<longleftrightarrow> fwd_inv s \<and> l \<in> listening s \<and> opener s l = Q_Done \<and> \<not> tracked s l"

lemma lost_step: "fwd_step faulty s t \<Longrightarrow> lost l s \<Longrightarrow> lost l t"
  unfolding lost_def
  apply (intro conjI)
     apply (blast intro: fwd_inv_step)
    apply (auto elim!: fwd_step.cases simp: tracked_def pending_def)[2]
  subgoal premises p
    using p(1) p(2) by cases (auto simp: tracked_def pending_def fkey_def closeForward_D fwd_inv_def
      dest!: closeForward_D entries_okD split: if_splits)
  done

lemma lost_steps: "(fwd_step faulty)\<^sup>*\<^sup>* s t \<Longrightarrow> lost l s \<Longrightarrow> lost l t"
  by (induction rule: rtranclp_induct) (auto intro: lost_step)

subsection \<open>Relayed connections\<close>

fun past_inbound :: "copy_pc \<Rightarrow> bool" where
  "past_inbound Y_Close_channel = True"
| "past_inbound Y_Done = True"
| "past_inbound _ = False"

definition relay_inv :: "relayed \<Rightarrow> bool" where
  "relay_inv s \<longleftrightarrow>
     (past_inbound (to_client s) \<or> past_inbound (to_peer s) \<longrightarrow> \<not> inbound_open s) \<and>
     (to_client s = Y_Done \<or> to_peer s = Y_Done \<longrightarrow> \<not> channel_open s) \<and>
     (relaying s \<noteq> W_Returned \<longrightarrow> to_client s = Y_None \<and> to_peer s = Y_None) \<and>
     (to_client s = Y_None \<longleftrightarrow> to_peer s = Y_None) \<and>
     (relaying s = W_Returned \<and> to_client s = Y_None \<longrightarrow> \<not> inbound_open s \<and> \<not> channel_open s) \<and>
     (relaying s \<noteq> W_Returned \<longrightarrow> \<not> channel_open s)"

lemma relay_inv_step: "relay_inv s \<Longrightarrow> relay_step s t \<Longrightarrow> relay_inv t"
  by (erule relay_step.cases) (simp_all add: relay_inv_def)

interpretation relay_sys: invariant_system relay_init relay_step relay_inv
  by unfold_locales (simp add: relay_init_def relay_inv_def, rule relay_inv_step)

fun relay_left :: "copy_pc \<Rightarrow> nat" where
  "relay_left Y_None = 0"
| "relay_left Y_Copy = 3"
| "relay_left Y_Close_inbound = 2"
| "relay_left Y_Close_channel = 1"
| "relay_left Y_Done = 0"

definition relay_measure :: "relayed \<Rightarrow> nat" where
  "relay_measure s = relay_left (to_client s) + relay_left (to_peer s) +
     (case relaying s of W_Open \<Rightarrow> 7 | W_Refused \<Rightarrow> 1 | W_Returned \<Rightarrow> 0)"

lemma relay_step_less:
  "relay_step s t \<Longrightarrow> relay_inv s \<Longrightarrow> relay_measure t < relay_measure s"
  by (erule relay_step.cases) (simp_all add: relay_measure_def relay_inv_def)

lemma relay_stuck:
  assumes "relay_inv s" and "\<And>t. \<not> relay_step s t"
  shows "\<not> inbound_open s \<and> \<not> channel_open s \<and> relaying s = W_Returned"
proof -
  have "relaying s = W_Returned"
    using assms(2) refused drop_inbound by (cases "relaying s") blast+
  moreover have "to_client s = Y_None \<or> to_client s = Y_Done"
    using assms(2) client_copied client_inbound client_channel by (cases "to_client s") blast+
  ultimately show ?thesis using assms(1) by (auto simp: relay_inv_def)
qed

section \<open>Properties\<close>





text \<open>
  C38: Teardown goes by key, not by listener: a connection that cancelled its forward still
  closes whatever is at that key when it ends. There is a run in which the goroutine of
  connection 1 is about to close the listener of connection 2, which is still connected and
  cancelled nothing, and after its next step that forward is closed.\<close>

theorem forward_closed_by_other:
  "\<exists>s t. reach fwd_init (fwd_step False) s \<and> watcher s 0 = C_Close 1 \<and> fconn s 0 = 1 \<and>
     fconn s 1 = 2 \<and> 2 \<notin> gone s \<and> 1 \<in> listening s \<and> fwd_step False s t \<and> 1 \<notin> listening t"
proof -
  let ?s = "fwd_taken\<lparr>watcher := (watcher fwd_taken)(0 := C_Close 1),
    forwards := (forwards fwd_taken)(forwardKey ''localhost'' 3000 := None)\<rparr>"
  have "fwd_step False fwd_taken ?s"
    by (rule fwd_step.watch_found) (simp_all add: fwd_taken_fields closeForward_def)
  then have "reach fwd_init (fwd_step False) ?s" by (rule reach_step [OF reach_fwd_taken])
  moreover have "fwd_step False ?s (?s\<lparr>watcher := (watcher ?s)(0 := C_Done), listening := listening ?s - {1}\<rparr>)"
    by (rule fwd_step.watch_close) simp
  moreover have "watcher ?s 0 = C_Close 1 \<and> fconn ?s 0 = 1 \<and> fconn ?s 1 = 2 \<and> 2 \<notin> gone ?s \<and> 1 \<in> listening ?s"
    by (simp add: fwd_taken_fields del: One_nat_def)
  moreover have "1 \<notin> listening (?s\<lparr>watcher := (watcher ?s)(0 := C_Done), listening := listening ?s - {1}\<rparr>)"
    by simp
  ultimately show ?thesis by blast
qed

text \<open>
  When \<open>Accept\<close> fails on an open listener, the loop drops the table entry and leaves the
  listener open: a run reaches a state in which the listener is open, its loop has exited, the
  table is empty, and no further step of any request, cancel or disconnection closes it.\<close>

theorem forward_lost_on_accept_error:
  "\<exists>s. reach fwd_init (fwd_step True) s \<and> 0 \<in> listening s \<and> loop s 0 = L_Exited \<and> forwards s = Map.empty \<and>
     {t. (fwd_step True)\<^sup>*\<^sup>* s t \<and> 0 \<notin> listening t} = {}"
proof -
  have "fwd_inv fwd_lost" using fwd_sys.reach_inv [OF reach_fwd_lost] .
  then have "lost 0 fwd_lost"
    by (simp add: lost_def tracked_def pending_def fwd_lost_def fwd_one_def fwd_start_def)
  then have "lost 0 t" if "(fwd_step True)\<^sup>*\<^sup>* fwd_lost t" for t
    using lost_steps [OF that] by simp
  then have "{t. (fwd_step True)\<^sup>*\<^sup>* fwd_lost t \<and> 0 \<notin> listening t} = {}"
    by (auto simp: lost_def)
  with reach_fwd_lost show ?thesis
    by (intro exI [of _ fwd_lost]) (simp add: fwd_lost_def fwd_one_def)
qed

text \<open>
  C22: Opening and cancelling match: when a forward request is granted, the address listened
  on is loopback even if a wildcard was asked for, and a cancel that names the address asked
  for and the port in the reply closes exactly that listener and restores the table.\<close>

theorem forward_cancel_roundtrip:
  assumes "startForward (Some allowReverseForward) listen hasConn payload tab = (Bound w, Some l, None, tab')"
    and "\<And>a l b. listen a = Some (l, b) \<Longrightarrow> 1 \<le> b \<and> b \<le> 65535"
    and "tab (forwardKey (BindAddr payload) (uint w)) = None"
  shows "\<exists>host. isLoopback host \<and> (BindAddr payload \<notin> anyBindAddresses \<longrightarrow> host = BindAddr payload) \<and>
      listen (JoinHostPort host (Itoa (uint (BindPort payload)))) = Some (l, uint w) \<and>
      cancelForward \<lparr>BindAddr = BindAddr payload, BindPort = w\<rparr> tab' = (True, Some l, tab)"
proof -
  let ?h = "bind_host (BindAddr payload)"
  from assms(1) obtain b where b: "isLoopback ?h"
      "listen (JoinHostPort ?h (Itoa (uint (BindPort payload)))) = Some (l, b)" "w = word_of_int b"
      "tab' = tab(forwardKey (BindAddr payload) b \<mapsto> l)"
    by (auto simp: startForward_def openForward_def allowReverseForward_def Let_def
        split: if_splits option.splits prod.splits)
  with assms(2) have "uint w = b"
    by (fastforce simp: uint_word_of_int take_bit_eq_mod)
  moreover from this assms(3) b(4)
  have "cancelForward \<lparr>BindAddr = BindAddr payload, BindPort = w\<rparr> tab' = (True, Some l, tab)"
    by (simp add: cancelForward_def closeForward_def fun_upd_idem)
  ultimately show ?thesis using b by (intro exI [of _ ?h]) (auto simp: bind_host_def)
qed

theorem forward_cancel_roundtrip_witness:
  "cancelForward \<lparr>BindAddr = ''*'', BindPort = 40000\<rparr> [forwardKey ''*'' 40000 \<mapsto> 7] = (True, Some 7, Map.empty)"
proof -
  have "startForward (Some allowReverseForward) (\<lambda>_. Some (7, 40000)) True \<lparr>BindAddr = ''*'', BindPort = 0\<rparr> Map.empty
      = (Bound 40000, Some 7, None, [forwardKey ''*'' 40000 \<mapsto> 7])"
    using bind_host_loopback [of "''*''"]
    by (simp add: startForward_def openForward_def allowReverseForward_def anyBindAddresses_def)
  from forward_cancel_roundtrip [OF this] show ?thesis by auto
qed



end
