(* ===== verification/SSH_Host_Key.thy ===== *)
theory SSH_Host_Key
  imports Go_Path
begin

text \<open>
  The persisted host key, \<open>internal/sshserver/hostkey.go\<close>. The model has a filesystem with
  what a crash of the node may do to it: directory changes that were not flushed may be lost,
  and so may any part of a file that was not flushed. Every system call may fail; which ones
  do is an argument. An operation returns its error and all states of the filesystem it goes
  through, the newest first, so that a statement can be made about every moment. Key
  generation and parsing are parameters: they belong to other packages.
\<close>

section \<open>Filesystem\<close>

type_synonym name = "string \<times> string"   \<comment> \<open>directory and file name\<close>

record inode =
  content :: string
  mode :: nat
  flushed :: bool

record fs =
  inodes :: "nat \<Rightarrow> inode"
  names :: "name \<rightharpoonup> nat"
  past :: "(name \<rightharpoonup> nat) list"   \<comment> \<open>versions of the directory that a crash may bring back\<close>
  fresh :: nat

text \<open>The file a path names.\<close>

definition file_name :: "string \<Rightarrow> name" where
  "file_name path = (Dir path, Base path)"

definition lookup_file :: "fs \<Rightarrow> name \<Rightarrow> inode option" where
  "lookup_file f n = map_option (inodes f) (names f n)"

definition set_names :: "(name \<rightharpoonup> nat) \<Rightarrow> fs \<Rightarrow> fs" where
  "set_names d f = f\<lparr>names := d, past := names f # past f\<rparr>"

definition fs_create :: "name \<Rightarrow> fs \<Rightarrow> fs" where
  "fs_create n f =
     set_names ((names f)(n \<mapsto> fresh f))
       (f\<lparr>inodes := (inodes f)(fresh f := \<lparr>content = [], mode = 0x180, flushed = False\<rparr>),
          fresh := Suc (fresh f)\<rparr>)"

definition fs_update :: "nat \<Rightarrow> (inode \<Rightarrow> inode) \<Rightarrow> fs \<Rightarrow> fs" where
  "fs_update i g f = f\<lparr>inodes := (inodes f)(i := g (inodes f i))\<rparr>"

definition fs_remove :: "name \<Rightarrow> fs \<Rightarrow> fs" where
  "fs_remove n f = set_names ((names f)(n := None)) f"

definition fs_rename :: "name \<Rightarrow> name \<Rightarrow> fs \<Rightarrow> fs" where
  "fs_rename old new f = set_names ((names f)(new := names f old, old := None)) f"

definition fs_syncdir :: "fs \<Rightarrow> fs" where
  "fs_syncdir f = f\<lparr>past := []\<rparr>"

text \<open>What may be left after a crash.\<close>

definition crash :: "fs \<Rightarrow> fs \<Rightarrow> bool" where
  "crash f g \<longleftrightarrow>
     names g \<in> set (names f # past f) \<and>
     (\<forall>i. prefix (content (inodes g i)) (content (inodes f i)) \<and> mode (inodes g i) = mode (inodes f i)
        \<and> (flushed (inodes f i) \<longrightarrow> content (inodes g i) = content (inodes f i)))"

section \<open>Operations\<close>

definition hostKeyDirMode :: nat where "hostKeyDirMode = 0x1C0"   \<comment> \<open>octal 700\<close>
definition hostKeyFileMode :: nat where "hostKeyFileMode = 0x180"  \<comment> \<open>octal 600\<close>

text \<open>Which calls fail; a failing write has written some bytes.\<close>

record faults =
  read_fails :: bool          \<comment> \<open>with an error other than \<open>os.ErrNotExist\<close>\<close>
  mkdir_fails :: bool
  create_fails :: bool
  chmod_fails :: bool
  write_fails :: "nat option"
  sync_fails :: bool
  close_fails :: bool
  rename_fails :: bool
  remove_fails :: bool
  opendir_fails :: bool
  syncdir_fails :: bool

type_synonym trace = "fs list"

definition run :: "(fs \<Rightarrow> fs) \<Rightarrow> trace \<Rightarrow> trace" where
  "run op tr = op (hd tr) # tr"

datatype hk_error =
    Unreadable | ReadFailed | GenerateFailed | MkdirFailed | CreateTempFailed
  | ChmodFailed | WriteFailed | SyncFailed | CloseFailed | RenameFailed | ParseFailed

text \<open>\<open>writeAndSync\<close> without its deferred close: the first error of \<open>Chmod\<close>, \<open>Write\<close>, \<open>Sync\<close>.\<close>

definition writeAndSync_body :: "faults \<Rightarrow> nat \<Rightarrow> string \<Rightarrow> trace \<Rightarrow> hk_error option \<times> trace" where
  "writeAndSync_body ft i contents tr =
     (if chmod_fails ft then (Some ChmodFailed, tr)
      else
        let tr = run (fs_update i (\<lambda>x. x\<lparr>mode := hostKeyFileMode\<rparr>)) tr in
        case write_fails ft of
          Some n \<Rightarrow>
            (Some WriteFailed, run (fs_update i (\<lambda>x. x\<lparr>content := take n contents, flushed := False\<rparr>)) tr)
        | None \<Rightarrow>
            let tr = run (fs_update i (\<lambda>x. x\<lparr>content := contents, flushed := False\<rparr>)) tr in
            if sync_fails ft then (Some SyncFailed, tr)
            else (None, run (fs_update i (\<lambda>x. x\<lparr>flushed := True\<rparr>)) tr))"

definition writeAndSync :: "faults \<Rightarrow> nat \<Rightarrow> string \<Rightarrow> trace \<Rightarrow> hk_error option \<times> trace" where
  "writeAndSync ft i contents tr =
     (case writeAndSync_body ft i contents tr of
        (err, tr') \<Rightarrow>
          ((case err of None \<Rightarrow> (if close_fails ft then Some CloseFailed else None) | Some e \<Rightarrow> Some e), tr'))"

definition syncDir :: "faults \<Rightarrow> trace \<Rightarrow> trace" where
  "syncDir ft tr = (if opendir_fails ft \<or> syncdir_fails ft then tr else run fs_syncdir tr)"

definition remove_tmp :: "faults \<Rightarrow> name \<Rightarrow> trace \<Rightarrow> trace" where
  "remove_tmp ft n tr = (if remove_fails ft then tr else run (fs_remove n) tr)"

text \<open>
  \<open>os.CreateTemp\<close> takes the first name made from a random suffix that is not in use; the
  suffixes it draws are an argument.
\<close>

definition tmp_name :: "string \<Rightarrow> string \<Rightarrow> name" where
  "tmp_name path sfx = (Dir path, Base path @ ''.tmp-'' @ sfx)"

definition CreateTemp :: "faults \<Rightarrow> string list \<Rightarrow> string \<Rightarrow> fs \<Rightarrow> name option" where
  "CreateTemp ft sfxs path f =
     (if create_fails ft then None
      else map_option (tmp_name path) (find (\<lambda>s. names f (tmp_name path s) = None) sfxs))"

definition writeHostKeyAtomically ::
    "faults \<Rightarrow> string list \<Rightarrow> string \<Rightarrow> string \<Rightarrow> trace \<Rightarrow> hk_error option \<times> trace" where
  "writeHostKeyAtomically ft sfxs path contents tr =
     (case CreateTemp ft sfxs path (hd tr) of
        None \<Rightarrow> (Some CreateTempFailed, tr)
      | Some tmp \<Rightarrow>
          let i = fresh (hd tr); tr = run (fs_create tmp) tr in
          case writeAndSync ft i contents tr of
            (Some err, tr) \<Rightarrow> (Some err, remove_tmp ft tmp tr)
          | (None, tr) \<Rightarrow>
              if rename_fails ft then (Some RenameFailed, remove_tmp ft tmp tr)
              else (None, syncDir ft (run (fs_rename tmp (file_name path)) tr)))"

text \<open>
  \<open>loadOrCreateHostKey\<close>. \<open>parse\<close> is \<open>gossh.ParsePrivateKey\<close> and \<open>gen\<close> what
  \<open>generateHostKeyPEM\<close> produces, \<open>None\<close> where it fails.
\<close>

definition loadOrCreateHostKey ::
    "(string \<Rightarrow> 'key option) \<Rightarrow> string option \<Rightarrow> faults \<Rightarrow> string list \<Rightarrow> string \<Rightarrow> trace
     \<Rightarrow> (hk_error + 'key \<times> bool) \<times> trace" where
  "loadOrCreateHostKey parse gen ft sfxs path tr =
     (if read_fails ft then (Inl ReadFailed, tr)
      else
        case lookup_file (hd tr) (file_name path) of
          Some x \<Rightarrow>
            (case parse (content x) of
               None \<Rightarrow> (Inl Unreadable, tr)
             | Some key \<Rightarrow> (Inr (key, False), tr))
        | None \<Rightarrow>
            (case gen of
               None \<Rightarrow> (Inl GenerateFailed, tr)
             | Some pem \<Rightarrow>
                 if mkdir_fails ft then (Inl MkdirFailed, tr)
                 else
                   (case writeHostKeyAtomically ft sfxs path pem tr of
                      (Some err, tr) \<Rightarrow> (Inl err, tr)
                    | (None, tr) \<Rightarrow>
                        (case parse pem of
                           None \<Rightarrow> (Inl ParseFailed, tr)
                         | Some key \<Rightarrow> (Inr (key, True), tr)))))"

section \<open>Lemmas\<close>

text \<open>The key is in no version of the directory; or wherever it is, it is complete and flushed.\<close>

definition absent :: "name \<Rightarrow> fs \<Rightarrow> bool" where
  "absent n f \<longleftrightarrow> (\<forall>d \<in> set (names f # past f). d n = None)"

definition installed :: "name \<Rightarrow> string \<Rightarrow> fs \<Rightarrow> bool" where
  "installed n contents f \<longleftrightarrow>
     (\<forall>d \<in> set (names f # past f). \<forall>i. d n = Some i \<longrightarrow>
        inodes f i = \<lparr>content = contents, mode = hostKeyFileMode, flushed = True\<rparr>)"

lemmas fs_defs = fs_create_def fs_update_def fs_remove_def fs_rename_def fs_syncdir_def set_names_def

lemma absent_ops [simp]:
  "t \<noteq> n \<Longrightarrow> absent n f \<Longrightarrow> absent n (fs_create t f)"
  "absent n f \<Longrightarrow> absent n (fs_update i g f)"
  "absent n f \<Longrightarrow> absent n (fs_remove t f)"
  by (auto simp: absent_def fs_defs)

lemma absent_installed: "absent n f \<Longrightarrow> installed n contents f"
  by (auto simp: absent_def installed_def)

lemma tmp_name_neq [simp]: "tmp_name path s \<noteq> file_name path"
  by (simp add: tmp_name_def file_name_def)

text \<open>Writing the temporary file never touches the key's name.\<close>

lemma writeAndSync_absent:
  assumes "writeAndSync ft i contents tr = (r, tr')" and "\<forall>f \<in> set tr. absent n f" and "tr \<noteq> []"
  shows "(\<forall>f \<in> set tr'. absent n f) \<and> tr' \<noteq> [] \<and> names (hd tr') = names (hd tr) \<and> past (hd tr') = past (hd tr)"
proof -
  from assms(3) obtain f fs where tr: "tr = f # fs" by (cases tr) auto
  with assms show ?thesis
    by (auto simp: writeAndSync_def writeAndSync_body_def run_def Let_def fs_update_def absent_def
        split: if_splits option.splits)
qed

lemma writeAndSync_complete:
  assumes "writeAndSync ft i contents tr = (None, tr')"
  shows "inodes (hd tr') i = \<lparr>content = contents, mode = hostKeyFileMode, flushed = True\<rparr>"
  using assms
  by (auto simp: writeAndSync_def writeAndSync_body_def run_def Let_def fs_update_def
      split: if_splits option.splits)

lemma rename_installed:
  assumes "absent n f" and "names f t = Some i"
    and "inodes f i = \<lparr>content = contents, mode = hostKeyFileMode, flushed = True\<rparr>"
  shows "installed n contents (fs_rename t n f)"
  using assms by (auto simp: absent_def installed_def fs_rename_def set_names_def split: if_splits)

lemma CreateTemp_SomeD: "CreateTemp ft sfxs path f = Some t \<Longrightarrow> t \<noteq> file_name path \<and> names f t = None"
  by (auto simp: CreateTemp_def find_Some_iff split: if_splits)

lemma installed_ops [simp]:
  "installed n contents f \<Longrightarrow> installed n contents (fs_syncdir f)"
  by (simp add: installed_def fs_syncdir_def)

lemma set_syncDir: "f \<in> set (syncDir ft tr) \<Longrightarrow> f \<in> set tr \<or> f = fs_syncdir (hd tr)"
  by (auto simp: syncDir_def run_def split: if_splits)

lemma set_remove_tmp: "f \<in> set (remove_tmp ft t tr) \<Longrightarrow> f \<in> set tr \<or> f = fs_remove t (hd tr)"
  by (auto simp: remove_tmp_def run_def split: if_splits)

lemma write_installed:
  assumes "writeHostKeyAtomically ft sfxs path contents [f0] = (r, tr)"
    and "absent (file_name path) f0" and "f \<in> set tr"
  shows "installed (file_name path) contents f"
proof (cases "CreateTemp ft sfxs path f0")
  case None
  with assms show ?thesis by (auto simp: writeHostKeyAtomically_def absent_installed)
next
  case (Some t)
  let ?n = "file_name path" and ?f1 = "fs_create t f0"
  from CreateTemp_SomeD [OF Some] have t: "t \<noteq> ?n" by simp
  obtain r1 tr1 where w: "writeAndSync ft (fresh f0) contents [?f1, f0] = (r1, tr1)" by fastforce
  have "\<forall>g \<in> set [?f1, f0]. absent ?n g" using assms(2) t by simp
  from writeAndSync_absent [OF w this]
  have tr1: "\<forall>g \<in> set tr1. absent ?n g" "tr1 \<noteq> []" "names (hd tr1) t = Some (fresh f0)"
    by (auto simp: fs_create_def set_names_def)
  have hd1: "absent ?n (hd tr1)" using tr1 by simp
  have "installed ?n contents (fs_rename t ?n (hd tr1))" if "r1 = None"
    using rename_installed [OF hd1 tr1(3)] writeAndSync_complete [OF w [unfolded that]] .
  then show ?thesis
    using assms(1,3) Some tr1(1) hd1
    by (auto simp: writeHostKeyAtomically_def Let_def w run_def absent_installed
        dest!: set_syncDir set_remove_tmp split: option.splits if_splits)
qed

lemma installed_crash:
  "installed n contents f \<Longrightarrow> crash f g \<Longrightarrow>
   lookup_file g n = None \<or> (\<exists>x. lookup_file g n = Some x \<and> content x = contents \<and> mode x = hostKeyFileMode)"
  by (cases "names g n") (auto simp: installed_def crash_def lookup_file_def)

text \<open>The names a call leaves behind.\<close>

lemma writeAndSync_names:
  assumes "writeAndSync ft i contents tr = (r, tr')"
  shows "names (hd tr') = names (hd tr)"
  using assms
  by (auto simp: writeAndSync_def writeAndSync_body_def run_def Let_def fs_update_def
      split: if_splits option.splits)

lemma hd_syncDir [simp]: "names (hd (syncDir ft tr)) = names (hd tr)" "inodes (hd (syncDir ft tr)) = inodes (hd tr)"
  by (simp_all add: syncDir_def run_def fs_syncdir_def)

lemma fun_upd_None: "d t = None \<Longrightarrow> d(t := None) = d"
  by auto

lemma write_names:
  assumes "writeHostKeyAtomically ft sfxs path contents [f0] = (r, tr)" and "\<not> remove_fails ft"
  shows "names (hd tr) = (if r = None then (names f0)(file_name path \<mapsto> fresh f0) else names f0)"
proof (cases "CreateTemp ft sfxs path f0")
  case None
  with assms show ?thesis by (auto simp: writeHostKeyAtomically_def)
next
  case (Some t)
  from CreateTemp_SomeD [OF Some] have t: "t \<noteq> file_name path" "names f0 t = None" by auto
  obtain r1 tr1 where w: "writeAndSync ft (fresh f0) contents [fs_create t f0, f0] = (r1, tr1)" by fastforce
  from writeAndSync_names [OF w] have "names (hd tr1) = (names f0)(t \<mapsto> fresh f0)"
    by (simp add: fs_create_def set_names_def)
  with assms Some w t show ?thesis
    by (auto simp: writeHostKeyAtomically_def Let_def run_def remove_tmp_def fs_remove_def fs_rename_def
        set_names_def fun_upd_None fun_upd_twist split: option.splits if_splits)
qed

lemma write_final:
  assumes "writeHostKeyAtomically ft sfxs path contents [f0] = (None, tr)"
  shows "lookup_file (hd tr) (file_name path)
    = Some \<lparr>content = contents, mode = hostKeyFileMode, flushed = True\<rparr>"
proof -
  from assms obtain t where Some: "CreateTemp ft sfxs path f0 = Some t"
    by (auto simp: writeHostKeyAtomically_def split: option.splits)
  obtain r1 tr1 where w: "writeAndSync ft (fresh f0) contents [fs_create t f0, f0] = (r1, tr1)" by fastforce
  with assms Some have r1: "r1 = None" and tr: "tr = syncDir ft (run (fs_rename t (file_name path)) tr1)"
    by (auto simp: writeHostKeyAtomically_def Let_def run_def split: option.splits if_splits)
  from writeAndSync_names [OF w] have "names (hd tr1) t = Some (fresh f0)"
    by (simp add: fs_create_def set_names_def)
  moreover from CreateTemp_SomeD [OF Some] have "t \<noteq> file_name path" by simp
  ultimately show ?thesis using writeAndSync_complete [OF w [unfolded r1]]
    by (simp add: tr lookup_file_def run_def fs_rename_def set_names_def)
qed

lemma write_not_unreadable: "fst (writeHostKeyAtomically ft sfxs path contents tr) \<noteq> Some Unreadable"
  by (auto simp: writeHostKeyAtomically_def writeAndSync_def writeAndSync_body_def Let_def
      split: option.splits if_splits prod.splits)

definition no_faults :: faults where
  "no_faults = \<lparr>read_fails = False, mkdir_fails = False, create_fails = False, chmod_fails = False,
     write_fails = None, sync_fails = False, close_fails = False, rename_fails = False,
     remove_fails = False, opendir_fails = False, syncdir_fails = False\<rparr>"

definition empty_fs :: fs where
  "empty_fs = \<lparr>inodes = (\<lambda>_. \<lparr>content = [], mode = 0, flushed = True\<rparr>), names = Map.empty, past = [], fresh = 0\<rparr>"

section \<open>Properties\<close>

text \<open>
  C4: the host key is installed atomically, also across a crash. Starting where no key is
  stored, whatever system calls fail, at every moment of \<open>loadOrCreateHostKey\<close> and whatever a
  crash at that moment loses, the key's path names either no file or the complete key with
  mode 600. The next start therefore never stops at an unreadable key.
\<close>

theorem host_key_crash_safe:
  assumes "absent (file_name path) f0" and "parse pem = Some key"
    and "f \<in> set (snd (loadOrCreateHostKey parse (Some pem) ft sfxs path [f0]))" and "crash f g"
  shows "(lookup_file g (file_name path) = None \<or>
      (\<exists>x. lookup_file g (file_name path) = Some x \<and> content x = pem \<and> mode x = 0x180))
    \<and> fst (loadOrCreateHostKey parse gen' ft' sfxs' path [g]) \<noteq> Inl Unreadable"
proof -
  obtain r tr where w: "writeHostKeyAtomically ft sfxs path pem [f0] = (r, tr)" by fastforce
  have none: "lookup_file f0 (file_name path) = None"
    using assms(1) by (simp add: absent_def lookup_file_def)
  with assms(3) w have "f \<in> set tr \<or> f = f0"
    by (auto simp: loadOrCreateHostKey_def split: if_splits option.splits)
  then have "installed (file_name path) pem f"
    using write_installed [OF w assms(1)] assms(1) by (auto simp: absent_installed)
  from installed_crash [OF this assms(4)]
  have after: "lookup_file g (file_name path) = None \<or>
      (\<exists>x. lookup_file g (file_name path) = Some x \<and> content x = pem \<and> mode x = 0x180)"
    by (simp add: hostKeyFileMode_def)
  moreover have "fst (loadOrCreateHostKey parse gen' ft' sfxs' path [g]) \<noteq> Inl Unreadable"
  proof (cases "lookup_file g (file_name path)")
    case None
    then show ?thesis
      using write_not_unreadable [of ft' sfxs' path _ "[g]"]
      by (auto simp: loadOrCreateHostKey_def split: option.splits prod.splits) (metis fst_conv)+
  next
    case (Some x)
    with after assms(2) show ?thesis by (auto simp: loadOrCreateHostKey_def)
  qed
  ultimately show ?thesis by blast
qed

theorem host_key_crash_safe_witness:
  "\<exists>tr. loadOrCreateHostKey Some (Some ''pem'') no_faults [''1''] ''/k'' [empty_fs] = (Inr (''pem'', True), tr)
    \<and> 5 < length tr
    \<and> (\<forall>f \<in> set tr. fst (loadOrCreateHostKey Some None no_faults [] ''/k'' [f]) \<noteq> Inl Unreadable)"
proof -
  obtain tr where l: "loadOrCreateHostKey Some (Some ''pem'') no_faults [''1''] ''/k'' [empty_fs] = (Inr (''pem'', True), tr)"
    and n: "5 < length tr"
    by (simp add: loadOrCreateHostKey_def writeHostKeyAtomically_def writeAndSync_def writeAndSync_body_def
        no_faults_def lookup_file_def empty_fs_def CreateTemp_def Let_def run_def syncDir_def)
  have a: "absent (file_name ''/k'') empty_fs" by (simp add: absent_def empty_fs_def)
  have "fst (loadOrCreateHostKey Some None no_faults [] ''/k'' [f]) \<noteq> Inl Unreadable" if "f \<in> set tr" for f
    using host_key_crash_safe [OF a, of Some "''pem''" "''pem''" f no_faults "[''1'']" f None no_faults "[]"] l that
    by (simp add: crash_def)
  with l n show ?thesis by blast
qed

text \<open>
  C28: the fingerprint is stable. Once a start has succeeded, whether it generated the key or
  found it, every later start that can read the file returns the same key, says that it did
  not generate one and leaves the filesystem alone.
\<close>

theorem host_key_stable:
  assumes "loadOrCreateHostKey parse gen ft sfxs path [f0] = (Inr (key, generated), tr)"
    and "\<not> read_fails ft'"
  shows "loadOrCreateHostKey parse gen' ft' sfxs' path [hd tr] = (Inr (key, False), [hd tr])"
proof (cases "lookup_file f0 (file_name path)")
  case None
  with assms(1) obtain pem where g: "gen = Some pem" "parse pem = Some key"
    and w: "writeHostKeyAtomically ft sfxs path pem [f0] = (None, tr)"
    by (auto simp: loadOrCreateHostKey_def split: if_splits option.splits prod.splits)
  from write_final [OF w] g assms(2) show ?thesis by (simp add: loadOrCreateHostKey_def)
next
  case (Some x)
  with assms show ?thesis by (auto simp: loadOrCreateHostKey_def split: if_splits option.splits)
qed

theorem host_key_stable_witness:
  "\<exists>tr. loadOrCreateHostKey Some (Some ''pem'') no_faults [''1''] ''/k'' [empty_fs] = (Inr (''pem'', True), tr)
    \<and> loadOrCreateHostKey Some (Some ''other'') no_faults [''1''] ''/k'' [hd tr] = (Inr (''pem'', False), [hd tr])"
proof -
  obtain tr where "loadOrCreateHostKey Some (Some ''pem'') no_faults [''1''] ''/k'' [empty_fs] = (Inr (''pem'', True), tr)"
    by (simp add: loadOrCreateHostKey_def writeHostKeyAtomically_def writeAndSync_def writeAndSync_body_def
        no_faults_def lookup_file_def empty_fs_def CreateTemp_def Let_def run_def)
  with host_key_stable [OF this, of no_faults "Some ''other''" "[''1'']"] show ?thesis
    by (auto simp: no_faults_def)
qed



end
