(* ===== verification/Go_Flag.thy ===== *)
theory Go_Flag
  imports Go_Base
begin

text \<open>
  What the code uses of Go's \<open>flag\<close> package: a flag set with integer, string and boolean
  flags, \<open>Parse\<close> with \<open>ExitOnError\<close> and the record of flags that were given, which \<open>Visit\<close>
  walks. An integer flag is read by \<open>strconv.ParseInt\<close> in base 0, which takes the base from a
  prefix and allows underscores between digits.
\<close>

section \<open>\<open>strconv.ParseInt\<close> in base 0\<close>

definition lower :: "char \<Rightarrow> char" where
  "lower c = (if 65 \<le> (of_char c :: nat) \<and> (of_char c :: nat) \<le> 90 then char_of (of_char c + 32 :: nat) else c)"

definition is_lower :: "char \<Rightarrow> bool" where
  "is_lower c \<longleftrightarrow> 97 \<le> (of_char c :: nat) \<and> (of_char c :: nat) \<le> 122"

definition base_digit :: "nat \<Rightarrow> char \<Rightarrow> nat option" where
  "base_digit base c =
     (let d = (if is_digit c then Some (digit_val c)
               else if is_lower (lower c) then Some (of_char (lower c) - 87) else None) in
      case d of None \<Rightarrow> None | Some d \<Rightarrow> if d < base then Some d else None)"

fun ParseUint0_loop :: "nat \<Rightarrow> int \<Rightarrow> string \<Rightarrow> (NumError, int) result" where
  "ParseUint0_loop base n [] = Ok n"
| "ParseUint0_loop base n (c # s) =
     (if c = CHR ''_'' then ParseUint0_loop base n s
      else
        case base_digit base c of
          None \<Rightarrow> Err ErrSyntax
        | Some d \<Rightarrow>
            let n1 = n * int base + int d in
            if maxUint64 < n1 then Err ErrRange else ParseUint0_loop base n1 s)"

definition base_prefix :: "string \<Rightarrow> nat \<times> string" where
  "base_prefix s =
     (if s \<noteq> [] \<and> hd s = CHR ''0'' then
        (if 3 \<le> length s \<and> lower (s ! 1) = CHR ''b'' then (2, drop 2 s)
         else if 3 \<le> length s \<and> lower (s ! 1) = CHR ''o'' then (8, drop 2 s)
         else if 3 \<le> length s \<and> lower (s ! 1) = CHR ''x'' then (16, drop 2 s)
         else (8, drop 1 s))
      else (10, s))"

text \<open>\<open>underscoreOK\<close>: the loop, on the kind of the character before.\<close>

datatype seen = Nothing | Digit | Underscore | Other

fun underscore_loop :: "bool \<Rightarrow> seen \<Rightarrow> string \<Rightarrow> bool" where
  "underscore_loop hex i [] = (i \<noteq> Underscore)"
| "underscore_loop hex i (c # s) =
     (if is_digit c \<or> hex \<and> is_lower (lower c) \<and> (of_char (lower c) :: nat) \<le> 102 then underscore_loop hex Digit s
      else if c = CHR ''_'' then i = Digit \<and> underscore_loop hex Underscore s
      else if i = Underscore then False
      else underscore_loop hex Other s)"

definition underscoreOK :: "string \<Rightarrow> bool" where
  "underscoreOK s0 =
     (let s = snd (split_sign s0) in
      if 2 \<le> length s \<and> hd s = CHR ''0'' \<and> lower (s ! 1) \<in> {CHR ''b'', CHR ''o'', CHR ''x''}
      then underscore_loop (lower (s ! 1) = CHR ''x'') Digit (drop 2 s)
      else underscore_loop False Nothing s)"

definition ParseUint0 :: "string \<Rightarrow> (NumError, int) result" where
  "ParseUint0 s =
     (if s = [] then Err ErrSyntax
      else
        case base_prefix s of
          (base, digits) \<Rightarrow>
            (case ParseUint0_loop base 0 digits of
               Err e \<Rightarrow> Err e
             | Ok n \<Rightarrow> if CHR ''_'' \<in> set digits \<and> \<not> underscoreOK s then Err ErrSyntax else Ok n))"

definition ParseInt0 :: "string \<Rightarrow> int option" where
  "ParseInt0 s =
     (case split_sign s of
        (neg, digits) \<Rightarrow>
          (case ParseUint0 digits of
             Err e \<Rightarrow> None
           | Ok un \<Rightarrow>
               if neg then (if 2 ^ 63 < un then None else Some (- un))
               else (if 2 ^ 63 \<le> un then None else Some un)))"

text \<open>A decimal number reads back.\<close>

lemma hd_decimal: "0 < n \<Longrightarrow> hd (decimal n) \<noteq> CHR ''0''"
proof (induction n rule: decimal.induct)
  case (1 n)
  show ?case
  proof (cases "10 \<le> n")
    case True
    with 1 show ?thesis by (subst decimal.simps) (simp add: hd_append del: decimal.simps)
  next
    case False
    then have "(of_char (digit_char n) :: nat) = 48 + n" by (simp add: digit_char_def)
    moreover have "(of_char CHR ''0'' :: nat) = 48" by simp
    ultimately have "digit_char n \<noteq> CHR ''0''" using 1(2) by (metis add_cancel_right_right less_irrefl)
    with False show ?thesis by (subst decimal.simps) (simp del: decimal.simps)
  qed
qed

lemma is_digit_not_underscore: "is_digit c \<Longrightarrow> c \<noteq> CHR ''_''"
  by (auto simp: is_digit_def)

lemma ParseUint0_loop_digits:
  "\<forall>c \<in> set s. is_digit c \<Longrightarrow> ParseUint0_loop 10 n s = ParseUint_loop n s"
proof (induction s arbitrary: n)
  case (Cons c s)
  then have c: "is_digit c" by simp
  then have "base_digit 10 c = Some (digit_val c)"
    by (auto simp: base_digit_def digit_val_def is_digit_def)
  with Cons c is_digit_not_underscore [OF c] show ?case by (simp add: Let_def)
qed simp

lemma ParseInt0_Itoa:
  assumes "0 < n" and "int64_ok n"
  shows "ParseInt0 (Itoa n) = Some n"
proof -
  let ?d = "decimal (nat n)"
  have n: "n \<le> maxUint64" "n < 2 ^ 63"
    using assms by (simp_all add: int64_ok_def maxInt64_def maxUint64_def)
  have "base_prefix ?d = (10, ?d)" using hd_decimal [of "nat n"] assms by (simp add: base_prefix_def)
  moreover have "ParseUint0_loop 10 0 ?d = Ok n"
    using ParseUint0_loop_digits [of ?d 0] decimal_digits ParseUint_loop_decimal [of "nat n"] n assms by simp
  moreover have "CHR ''_'' \<notin> set ?d" using decimal_digits is_digit_not_underscore by blast
  ultimately have "ParseUint0 ?d = Ok n" by (simp add: ParseUint0_def)
  with assms n show ?thesis by (simp add: ParseInt0_def Itoa_def split_sign_decimal)
qed

section \<open>Flags\<close>

datatype flag_value = IntFlag int | StringFlag string | BoolFlag bool

type_synonym flag_set = "string \<rightharpoonup> flag_value"

text \<open>\<open>Value.Set\<close> of the flag's kind.\<close>

definition set_flag :: "flag_value \<Rightarrow> string \<Rightarrow> flag_value option" where
  "set_flag old v =
     (case old of
        IntFlag _ \<Rightarrow> map_option IntFlag (ParseInt0 v)
      | StringFlag _ \<Rightarrow> Some (StringFlag v)
      | BoolFlag _ \<Rightarrow> map_option BoolFlag (ParseBool v))"

datatype flag_error = HelpRequested | BadFlag string

text \<open>One argument, its value after \<open>=\<close> split off.\<close>

definition flag_name :: "string \<Rightarrow> string \<times> string option" where
  "flag_name name =
     (case IndexByte (drop 1 name) CHR ''='' of
        None \<Rightarrow> (name, None)
      | Some i \<Rightarrow> (take (Suc i) name, Some (drop (i + 2) name)))"

text \<open>\<open>parseOne\<close>: the arguments that are left when there is no more flag, an error, or a flag to set.\<close>

datatype parsed = NoFlag "string list" | FlagFailed flag_error | SetFlag string flag_value "string list"

definition set_or_fail :: "string \<Rightarrow> flag_value \<Rightarrow> string \<Rightarrow> string list \<Rightarrow> parsed" where
  "set_or_fail name old v args =
     (case set_flag old v of None \<Rightarrow> FlagFailed (BadFlag name) | Some new \<Rightarrow> SetFlag name new args)"

fun is_bool_flag :: "flag_value \<Rightarrow> bool" where
  "is_bool_flag (BoolFlag b) = True"
| "is_bool_flag _ = False"

fun parseOne :: "flag_set \<Rightarrow> string list \<Rightarrow> parsed" where
  "parseOne fs [] = NoFlag []"
| "parseOne fs (s # args) =
     (if length s < 2 \<or> hd s \<noteq> CHR ''-'' then NoFlag (s # args)
      else if s = ''--'' then NoFlag args
      else
        let name = (if s ! 1 = CHR ''-'' then drop 2 s else drop 1 s) in
        if name = [] \<or> hd name = CHR ''-'' \<or> hd name = CHR ''='' then FlagFailed (BadFlag s)
        else
          case flag_name name of
            (name, given) \<Rightarrow>
              (case fs name of
                 None \<Rightarrow> FlagFailed (if name \<in> {''help'', ''h''} then HelpRequested else BadFlag name)
               | Some old \<Rightarrow>
                   (case given of
                      Some v \<Rightarrow> set_or_fail name old v args
                    | None \<Rightarrow>
                        if is_bool_flag old then SetFlag name (BoolFlag True) args
                        else
                          (case args of
                             [] \<Rightarrow> FlagFailed (BadFlag name)
                           | v # rest \<Rightarrow> set_or_fail name old v rest))))"

lemma parseOne_SetFlagD:
  "parseOne fs args = SetFlag name new rest \<Longrightarrow>
   length rest < length args \<and> ((\<exists>old v. set_flag old v = Some new) \<or> new = BoolFlag True)"
  by (cases args)
    (fastforce simp: set_or_fail_def Let_def split: if_splits prod.splits option.splits list.splits)+

text \<open>
  \<open>FlagSet.Parse\<close>: the values, the names that were set (\<open>actual\<close>) and the arguments that remain.
\<close>

function Parse_flags ::
    "flag_set \<Rightarrow> string set \<Rightarrow> string list \<Rightarrow> (flag_error, flag_set \<times> string set \<times> string list) result" where
  "Parse_flags fs actual args =
     (case parseOne fs args of
        NoFlag rest \<Rightarrow> Ok (fs, actual, rest)
      | FlagFailed err \<Rightarrow> Err err
      | SetFlag name new rest \<Rightarrow> Parse_flags (fs(name \<mapsto> new)) (insert name actual) rest)"
  by pat_completeness auto
termination
  by (relation "measure (\<lambda>(fs, actual, args). length args)") (auto dest!: sym [THEN parseOne_SetFlagD] parseOne_SetFlagD)

declare Parse_flags.simps [simp del]

end
