(* ===== verification/SSH_Server.thy ===== *)
theory SSH_Server
  imports SSH_Session SSH_Forward SSH_Host_Key Go_Flag
begin

text \<open>
  The SSH server as a whole, from \<open>internal/sshserver/server.go\<close>: the session slots, the
  handlers of shell and SFTP sessions, \<open>New\<close> and \<open>Shutdown\<close>; and the program around it,
  \<open>cmd/remote-access-server/main.go\<close>, with its command line. The slots come as functions, for
  one caller at a time, and as a step relation over any number of handlers, in which the two
  atomic additions of a refused \<open>acquireSession\<close> are separate steps. The counter is an
  unbounded integer: 64 bits cannot be counted up by goroutines.
\<close>

section \<open>Session slots\<close>

record slots =
  limit :: int             \<comment> \<open>\<open>config.MaxSessions\<close>\<close>
  sessions :: int

definition acquireSession :: "slots \<Rightarrow> bool \<times> slots" where
  "acquireSession s =
     (if limit s \<le> 0 then (True, s)
      else
        let n = sessions s + 1 in
        if limit s < n then (False, s\<lparr>sessions := n - 1\<rparr>) else (True, s\<lparr>sessions := n\<rparr>))"

definition releaseSession :: "slots \<Rightarrow> slots" where
  "releaseSession s = (if limit s \<le> 0 then s else s\<lparr>sessions := sessions s - 1\<rparr>)"

datatype slot_pc =
    E_Idle
  | E_Over        \<comment> \<open>counted itself above the limit, about to take that back\<close>
  | E_Refused     \<comment> \<open>\<open>acquireSession\<close> returned false\<close>
  | E_Running     \<comment> \<open>\<open>acquireSession\<close> returned true, \<open>releaseSession\<close> deferred\<close>

record sessions_state =
  pool :: slots
  at_pc :: "nat \<Rightarrow> slot_pc"

definition slots_init :: "int \<Rightarrow> sessions_state \<Rightarrow> bool" where
  "slots_init n s \<longleftrightarrow> s = \<lparr>pool = \<lparr>limit = n, sessions = 0\<rparr>, at_pc = (\<lambda>_. E_Idle)\<rparr>"

inductive slots_step :: "sessions_state \<Rightarrow> sessions_state \<Rightarrow> bool" where
  admit: "at_pc s i = E_Idle \<Longrightarrow> acquireSession (pool s) = (True, p) \<Longrightarrow>
    slots_step s (s\<lparr>pool := p, at_pc := (at_pc s)(i := E_Running)\<rparr>)"
| add_over: "at_pc s i = E_Idle \<Longrightarrow> 0 < limit (pool s) \<Longrightarrow> limit (pool s) < sessions (pool s) + 1 \<Longrightarrow>
    slots_step s (s\<lparr>pool := (pool s)\<lparr>sessions := sessions (pool s) + 1\<rparr>, at_pc := (at_pc s)(i := E_Over)\<rparr>)"
| take_back: "at_pc s i = E_Over \<Longrightarrow>
    slots_step s (s\<lparr>pool := (pool s)\<lparr>sessions := sessions (pool s) - 1\<rparr>, at_pc := (at_pc s)(i := E_Refused)\<rparr>)"
| refuse: "at_pc s i = E_Refused \<Longrightarrow> slots_step s (s\<lparr>at_pc := (at_pc s)(i := E_Idle)\<rparr>)"
| handler_ends: "at_pc s i = E_Running \<Longrightarrow>
    slots_step s (s\<lparr>pool := releaseSession (pool s), at_pc := (at_pc s)(i := E_Idle)\<rparr>)"

section \<open>Handlers\<close>

text \<open>What the server passes to \<open>exec\<close>.\<close>

record command =
  Args :: "string list"
  Env :: "string list"
  WorkDir :: string

text \<open>What \<open>handleSession\<close> reads of the session, and of the system.\<close>

record session_request =
  RawCommand :: string
  Environ :: "string list"
  Pty :: "string option"      \<comment> \<open>the terminal type, if one was requested\<close>

record system =
  sys_stat :: stat
  sys_env :: env
  sys_environ :: "string list"
  sys_walk :: "(string \<times> string) list \<Rightarrow> (string \<times> string) list"
  sys_passwd :: "passwd option"

definition session_command :: "system \<Rightarrow> Config \<Rightarrow> session_request \<Rightarrow> command" where
  "session_command sys c req =
     (let env = withPasswdFallback (sys_passwd sys) (mergeEnv (sys_walk sys) (sys_environ sys) (Environ req)) in
      \<lparr>Args = buildShellCommand (resolveShell (sys_stat sys) (sys_env sys)) (LoginShell c) (RawCommand req),
       Env = (case Pty req of None \<Rightarrow> env | Some term \<Rightarrow> ptyEnv env term),
       WorkDir = sessionWorkingDir (sys_stat sys) env\<rparr>)"

datatype handled =
    Rejected string int          \<comment> \<open>text on stderr and exit code\<close>
  | Started bool command         \<comment> \<open>with or without a terminal\<close>

text \<open>
  \<open>handleSession\<close>: what it does, and the slots when it has returned. The run of a started
  command is the subject of \<open>SSH_Session\<close>.
\<close>

definition handleSession :: "system \<Rightarrow> Config \<Rightarrow> session_request \<Rightarrow> slots \<Rightarrow> handled \<times> slots" where
  "handleSession sys c req s =
     (case acquireSession s of
        (False, s') \<Rightarrow> (Rejected (''remote access server at capacity'' @ [CHR 0x0A]) exitCodeGeneralError, s')
      | (True, s') \<Rightarrow> (Started (Pty req \<noteq> None) (session_command sys c req), releaseSession s'))"

text \<open>
  \<open>handleSFTP\<close>; \<open>serve\<close> is the error \<open>server.Serve()\<close> ends with, \<open>created\<close> whether \<open>sftp.NewServer\<close>
  succeeded. The result is the exit code and whether the SFTP server was closed.
\<close>

datatype serve_error = EOF | ServeError string

definition handleSFTP :: "bool \<Rightarrow> serve_error option \<Rightarrow> int \<times> bool" where
  "handleSFTP created serve =
     (if \<not> created then (exitCodeGeneralError, False)
      else if serve \<noteq> None \<and> serve \<noteq> Some EOF then (exitCodeGeneralError, True)
      else (0, True))"

section \<open>The server\<close>

text \<open>The fields of \<open>ssh.Server\<close> that \<open>New\<close> sets; handlers are named by the code that runs.\<close>

datatype channel_handler = DefaultSessionHandler | DirectTCPIPHandler

record 'key ssh_server =
  Addr :: string
  HostSigners :: "'key list"
  ServerIdleTimeout :: Duration
  LocalPortForwardingCallback :: "(string \<Rightarrow> 32 word \<Rightarrow> bool) option"
  ReversePortForwardingCallback :: "(string \<Rightarrow> 32 word \<Rightarrow> bool) option"
  ChannelHandlers :: "(string \<times> channel_handler) list"
  RequestTypes :: "string list"       \<comment> \<open>all served by the one forward handler\<close>
  Subsystems :: "string list"

record 'key Server =
  config :: Config
  ssh :: "'key ssh_server"
  slots_of :: slots
  forward_table :: table

datatype new_error = InvalidConfig ConfigError | HostKeyError hk_error

definition New ::
    "(string \<Rightarrow> 'key option) \<Rightarrow> string option \<Rightarrow> faults \<Rightarrow> string list \<Rightarrow> Config \<Rightarrow> trace
     \<Rightarrow> (new_error + 'key Server) \<times> trace" where
  "New parse gen ft sfxs c tr =
     (case validate c of
        Some err \<Rightarrow> (Inl (InvalidConfig err), tr)
      | None \<Rightarrow>
          (case loadOrCreateHostKey parse gen ft sfxs (HostKeyPath c) tr of
             (Inl err, tr') \<Rightarrow> (Inl (HostKeyError err), tr')
           | (Inr (signer, generated), tr') \<Rightarrow>
               (Inr \<lparr>config = c,
                     ssh = \<lparr>Addr = ListenAddr c, HostSigners = [signer], ServerIdleTimeout = IdleTimeout c,
                            LocalPortForwardingCallback = Some allowLocalForward,
                            ReversePortForwardingCallback = Some allowReverseForward,
                            ChannelHandlers = [(''session'', DefaultSessionHandler),
                                               (''direct-tcpip'', DirectTCPIPHandler)],
                            RequestTypes = [requestTypeForward, requestTypeCancelForward],
                            Subsystems = [''sftp'']\<rparr>,
                     slots_of = \<lparr>limit = MaxSessions c, sessions = 0\<rparr>, forward_table = Map.empty\<rparr>, tr')))"

datatype stop_error = DeadlineExceeded | Canceled | OtherStop string

text \<open>\<open>drained\<close> is what the library's \<open>Shutdown\<close> returns and \<open>close\<close> what its \<open>Close\<close> would.\<close>

definition Shutdown :: "stop_error option \<Rightarrow> stop_error option \<Rightarrow> stop_error option" where
  "Shutdown drained close =
     (if drained = Some DeadlineExceeded \<or> drained = Some Canceled then close else drained)"

section \<open>The program\<close>

definition ras_flags :: flag_set where
  "ras_flags = [''port'' \<mapsto> IntFlag 0, ''host-key'' \<mapsto> StringFlag '''', ''login-shell'' \<mapsto> BoolFlag False]"

definition isFlagSet :: "string set \<Rightarrow> string \<Rightarrow> bool" where
  "isFlagSet actual name \<longleftrightarrow> name \<in> actual"

definition int_flag :: "flag_set \<Rightarrow> string \<Rightarrow> int" where
  "int_flag fs name = (case fs name of Some (IntFlag n) \<Rightarrow> n | _ \<Rightarrow> 0)"

definition string_flag :: "flag_set \<Rightarrow> string \<Rightarrow> string" where
  "string_flag fs name = (case fs name of Some (StringFlag v) \<Rightarrow> v | _ \<Rightarrow> [])"

definition bool_flag :: "flag_set \<Rightarrow> string \<Rightarrow> bool" where
  "bool_flag fs name = (case fs name of Some (BoolFlag b) \<Rightarrow> b | _ \<Rightarrow> False)"

text \<open>The configuration \<open>main\<close> hands to \<open>New\<close>.\<close>

definition ras_config :: "string option \<Rightarrow> env \<Rightarrow> flag_set \<Rightarrow> string set \<Rightarrow> Config" where
  "ras_config passwd env fs actual =
     (let c = SSH_Config.LoadConfig passwd env;
          c = (if int_flag fs ''port'' \<noteq> 0
               then c\<lparr>ListenAddr := ''127.0.0.1:'' @ Itoa (int_flag fs ''port'')\<rparr> else c);
          c = (if string_flag fs ''host-key'' \<noteq> '''' then c\<lparr>HostKeyPath := string_flag fs ''host-key''\<rparr> else c)
      in if isFlagSet actual ''login-shell'' then c\<lparr>LoginShell := bool_flag fs ''login-shell''\<rparr> else c)"

text \<open>
  How the run of a started server ends: by a signal, with what the drain and the close
  return, or because \<open>ListenAndServe\<close> returned, \<open>None\<close> standing for \<open>ssh.ErrServerClosed\<close> or no
  error.
\<close>

datatype ras_end = Stopped "stop_error option" "stop_error option" | ServeReturned "string option"

definition ras_main ::
    "(string \<Rightarrow> 'key option) \<Rightarrow> string option \<Rightarrow> faults \<Rightarrow> string list \<Rightarrow> bool \<Rightarrow> string list \<Rightarrow> string option
     \<Rightarrow> env \<Rightarrow> ras_end \<Rightarrow> trace \<Rightarrow> nat \<times> 'key Server option \<times> trace" where
  "ras_main parse gen ft sfxs loggerFails args passwd env re tr =
     (if loggerFails then (1, None, tr)
      else
        case Parse_flags ras_flags {} args of
          Err HelpRequested \<Rightarrow> (0, None, tr)
        | Err (BadFlag _) \<Rightarrow> (2, None, tr)
        | Ok (fs, actual, rest) \<Rightarrow>
            (case New parse gen ft sfxs (ras_config passwd env fs actual) tr of
               (Inl err, tr') \<Rightarrow> (1, None, tr')
             | (Inr server, tr') \<Rightarrow>
                 ((case re of
                     Stopped drained close \<Rightarrow> if Shutdown drained close \<noteq> None then 1 else 0
                   | ServeReturned err \<Rightarrow> if err \<noteq> None then 1 else 0), Some server, tr')))"

section \<open>Lemmas\<close>

subsection \<open>Slots\<close>

interpretation ssh_pool: slot_pool acquireSession releaseSession sessions limit
  "\<lambda>s. 0 < limit s \<and> 0 \<le> sessions s"
  by unfold_locales (auto simp: acquireSession_def releaseSession_def Let_def split: if_splits)

definition running :: "sessions_state \<Rightarrow> nat set" where
  "running s = at (at_pc s) {E_Running}"

definition over :: "sessions_state \<Rightarrow> nat set" where
  "over s = at (at_pc s) {E_Over}"

definition slots_inv :: "int \<Rightarrow> sessions_state \<Rightarrow> bool" where
  "slots_inv n s \<longleftrightarrow> limit (pool s) = n \<and> finite (running s) \<and> finite (over s) \<and>
     (0 < n \<longrightarrow> sessions (pool s) = int (card (running s)) + int (card (over s)) \<and> int (card (running s)) \<le> n)"

lemma slots_upd [simp]:
  "running (s\<lparr>pool := p, at_pc := q\<rparr>) = at q {E_Running}" "running (s\<lparr>at_pc := q\<rparr>) = at q {E_Running}"
  "over (s\<lparr>pool := p, at_pc := q\<rparr>) = at q {E_Over}" "over (s\<lparr>at_pc := q\<rparr>) = at q {E_Over}"
  by (simp_all add: running_def over_def)

lemma acquireSession_True:
  "acquireSession p = (True, q) \<Longrightarrow>
   limit q = limit p \<and> (0 < limit p \<longrightarrow> sessions q = sessions p + 1 \<and> sessions q \<le> limit p)"
  by (auto simp: acquireSession_def Let_def split: if_splits)

lemma slots_step_inv: "slots_step s t \<Longrightarrow> slots_inv n s \<Longrightarrow> slots_inv n t"
  by (erule slots_step.cases)
    (auto simp: slots_inv_def card_at_move finite_at_upd releaseSession_def running_def over_def
      dest!: acquireSession_True)

interpretation slots_sys: invariant_system "slots_init n" slots_step "slots_inv n" for n
proof unfold_locales
  show "slots_inv n s" if "slots_init n s" for s
    using that by (simp add: slots_init_def slots_inv_def running_def over_def at_def)
qed (rule slots_step_inv)

lemma slots_step_sim:
  assumes "0 < n" and "slots_step s t" and "slots_inv n s"
  shows "running t = running s \<or> slot_step n (running s) (running t)"
  using assms(2)
proof cases
  case (admit i p)
  then have "running t = insert i (running s)" and "i \<notin> running s"
    by (simp_all add: at_enter running_def)
  moreover have "int (card (running s)) < n"
    using admit acquireSession_True [OF admit(3)] assms by (auto simp: slots_inv_def)
  ultimately show ?thesis by (auto intro: take_slot)
next
  case (handler_ends i)
  then have "running t = running s - {i}" and "i \<in> running s"
    by (simp_all add: at_leave running_def)
  then show ?thesis by (auto intro: give_slot)
qed (simp_all add: running_def at_stay)

interpretation slots_sim: simulation "\<lambda>s. 0 < n \<and> slots_init n s" slots_step "\<lambda>s. 0 < n \<and> slots_inv n s"
  running "slot_step n" for n
  by unfold_locales (auto intro: slots_step_inv slots_sys.inv_init dest: slots_step_sim)

text \<open>Handler 0 runs in the only slot, handler 1 counts itself too, and handler 0 ends.\<close>

definition slots_start :: "int \<Rightarrow> sessions_state" where
  "slots_start n = \<lparr>pool = \<lparr>limit = n, sessions = 0\<rparr>, at_pc = (\<lambda>_. E_Idle)\<rparr>"

definition slots_one :: sessions_state where
  "slots_one = \<lparr>pool = \<lparr>limit = 1, sessions = 1\<rparr>, at_pc = (\<lambda>_. E_Idle)(0 := E_Running)\<rparr>"

definition slots_ghost :: sessions_state where
  "slots_ghost = \<lparr>pool = \<lparr>limit = 1, sessions = 1\<rparr>, at_pc = (\<lambda>_. E_Idle)(1 := E_Over)\<rparr>"

lemma reach_slots_start: "reach (slots_init n) slots_step (slots_start n)"
  by (simp add: reach_init slots_init_def slots_start_def)

lemma slots_one_step: "slots_step (slots_start 1) slots_one"
  using slots_step.admit [of "slots_start 1" 0 "\<lparr>limit = 1, sessions = 1\<rparr>"]
  by (simp add: slots_start_def slots_one_def acquireSession_def)

lemma reach_slots_ghost: "reach (slots_init 1) slots_step slots_ghost"
proof -
  let ?s = "\<lparr>pool = \<lparr>limit = 1, sessions = 2\<rparr>, at_pc = (\<lambda>_. E_Idle)(0 := E_Running, 1 := E_Over)\<rparr> :: sessions_state"
  have "slots_step slots_one ?s"
    using slots_step.add_over [of slots_one 1] by (simp add: slots_one_def)
  moreover have "slots_step ?s slots_ghost"
    using slots_step.handler_ends [of ?s 0]
    by (simp add: slots_ghost_def releaseSession_def fun_upd_twist [of 0 1] fun_upd_idem)
  ultimately show ?thesis
    using reach_slots_start [of 1] slots_one_step by (metis reach_step)
qed

subsection \<open>The command line\<close>

lemma ParseUint0_loop_nonneg: "ParseUint0_loop base n s = Ok m \<Longrightarrow> 0 \<le> n \<Longrightarrow> 0 \<le> m"
  by (induction base n s rule: ParseUint0_loop.induct) (auto simp: Let_def split: if_splits option.splits)

lemma ParseUint0_nonneg: "ParseUint0 s = Ok n \<Longrightarrow> 0 \<le> n"
  by (auto simp: ParseUint0_def split: if_splits prod.splits result.splits dest: ParseUint0_loop_nonneg)

lemma ParseInt0_int64: "ParseInt0 s = Some n \<Longrightarrow> int64_ok n"
  by (auto simp: ParseInt0_def int64_ok_def minInt64_def maxInt64_def
      split: prod.splits result.splits if_splits dest: ParseUint0_nonneg)

text \<open>Every flag keeps its kind and an integer flag holds 64 bits.\<close>

fun flag_ok :: "flag_value \<Rightarrow> bool" where
  "flag_ok (IntFlag n) = int64_ok n"
| "flag_ok _ = True"

lemma set_flag_ok: "set_flag old v = Some new \<Longrightarrow> flag_ok new"
  by (cases old) (auto simp: set_flag_def ParseInt0_int64)

lemma Parse_flags_ok:
  "Parse_flags fs actual args = Ok (fs', actual', rest) \<Longrightarrow> \<forall>v \<in> ran fs. flag_ok v \<Longrightarrow> \<forall>v \<in> ran fs'. flag_ok v"
proof (induction fs actual args arbitrary: fs' actual' rest rule: Parse_flags.induct)
  case (1 fs actual args)
  show ?case
  proof (cases "parseOne fs args")
    case (SetFlag name new more)
    from parseOne_SetFlagD [OF SetFlag] have "flag_ok new" by (auto dest: set_flag_ok)
    with 1(3) have "\<forall>v \<in> ran (fs(name \<mapsto> new)). flag_ok v" by (auto simp: ran_def)
    moreover have "Parse_flags (fs(name \<mapsto> new)) (insert name actual) more = Ok (fs', actual', rest)"
      using 1(2) SetFlag by (simp add: Parse_flags.simps [of fs])
    ultimately show ?thesis using 1(1) [OF SetFlag] by blast
  qed (use 1 in \<open>simp_all add: Parse_flags.simps [of fs]\<close>)
qed

lemma port_flag_int64:
  assumes "Parse_flags ras_flags {} args = Ok (fs, actual, rest)"
  shows "int64_ok (int_flag fs ''port'')"
proof -
  have "\<forall>v \<in> ran ras_flags. flag_ok v"
    by (auto simp: ras_flags_def ran_def int64_ok_def minInt64_def maxInt64_def split: if_splits)
  with Parse_flags_ok [OF assms] have "\<forall>v \<in> ran fs. flag_ok v" by blast
  then show ?thesis
    by (auto simp: int_flag_def ran_def int64_ok_def minInt64_def maxInt64_def
        split: option.splits flag_value.splits)
qed

lemma port_args:
  assumes "0 < p" and "int64_ok p"
  shows "Parse_flags ras_flags {} [''--port'', Itoa p] = Ok (ras_flags(''port'' \<mapsto> IntFlag p), {''port''}, [])"
  using assms
  by (simp add: Parse_flags.simps flag_name_def set_or_fail_def set_flag_def ParseInt0_Itoa ras_flags_def)

lemma SplitHostPort_port: "SplitHostPort (''127.0.0.1:'' @ Itoa p) = Ok (''127.0.0.1'', Itoa p)"
  using SplitHostPort_JoinHostPort [of "''127.0.0.1''" "Itoa p"]
  by (simp add: JoinHostPort_def)

lemma validate_port:
  assumes "validate c = None" and "ListenAddr c = ''127.0.0.1:'' @ Itoa p" and "int64_ok p"
  shows "1 \<le> p \<and> p \<le> 65535"
  using assms
  by (simp add: validate_def SplitHostPort_port [simplified] Atoi_Itoa split: if_splits)

lemma validate_host:
  assumes "validate c = None" and "\<not> AllowNonLoopback c"
  shows "\<exists>host port. SplitHostPort (ListenAddr c) = Ok (host, port) \<and> isLoopback host"
  using assms by (auto simp: validate_def split: result.splits prod.splits if_splits)

lemma New_Inr:
  assumes "New parse gen ft sfxs c tr = (Inr server, tr')"
  shows "validate c = None" and "config server = c" and "Addr (ssh server) = ListenAddr c"
    and "LocalPortForwardingCallback (ssh server) = Some allowLocalForward"
    and "ReversePortForwardingCallback (ssh server) = Some allowReverseForward"
    and "slots_of server = \<lparr>limit = MaxSessions c, sessions = 0\<rparr>"
  using assms by (auto simp: New_def split: option.splits prod.splits sum.splits)

section \<open>Properties\<close>

text \<open>
  C11: The limit on sessions holds under every interleaving of handlers: with a positive
  limit, no more sessions run than it allows, and the counter is the number of running
  sessions plus the handlers that have counted themselves and are about to be refused.\<close>

theorem sessions_bounded:
  assumes "reach (slots_init n) slots_step s" and "0 < n"
  shows "int (card (running s)) \<le> n \<and> finite (running s) \<and>
    sessions (pool s) = int (card (running s)) + int (card (over s))"
  using slots_sys.reach_inv [OF assms(1)] assms(2) by (simp add: slots_inv_def)

theorem sessions_bounded_witness: "int (card (running slots_ghost)) \<le> 1"
  using sessions_bounded [OF reach_slots_ghost] by simp

text \<open>
  The handlers refine an atomic set of holders with the configured capacity: seen from
  the outside, each step adds a session below capacity, removes one, or changes nothing.\<close>

theorem sessions_refine:
  assumes "reach (slots_init n) slots_step s" and "0 < n" and "slots_step\<^sup>*\<^sup>* s t"
  shows "(slot_step n)\<^sup>*\<^sup>* (running s) (running t)"
  using slots_sim.sim_steps [OF assms(3)] slots_sys.reach_inv [OF assms(1)] assms(2) by blast

theorem sessions_refine_witness: "(slot_step 1)\<^sup>*\<^sup>* (running (slots_start 1)) (running slots_one)"
proof -
  have "slots_step\<^sup>*\<^sup>* (slots_start 1) slots_one" using slots_one_step by blast
  from sessions_refine [OF reach_slots_start _ this] show ?thesis by simp
qed

text \<open>
  The refusal is not atomic: because a handler counts itself before it looks, a session
  can be refused while no session runs. With a limit of one there is a run to a state with
  no running session in which the next handler finds the counter above the limit.\<close>

theorem refused_below_limit:
  "\<exists>s. reach (slots_init 1) slots_step s \<and> running s = {} \<and> at_pc s 2 = E_Idle \<and>
     fst (acquireSession (pool s)) = False"
proof (intro exI conjI)
  show "reach (slots_init 1) slots_step slots_ghost" by (rule reach_slots_ghost)
qed (auto simp: running_def slots_ghost_def at_def acquireSession_def)

text \<open>
  A handler gives back what it took, and at capacity it runs nothing: with a positive
  limit, \<open>handleSession\<close> starts a command exactly when a slot is free, otherwise answers with the
  capacity message and exit code 1, and in both cases leaves the counter as it found it.\<close>

theorem handleSession_balanced:
  assumes "0 < limit s" and "0 \<le> sessions s"
  shows "handleSession sys c req s =
    (if sessions s < limit s then (Started (Pty req \<noteq> None) (session_command sys c req), s)
     else (Rejected (''remote access server at capacity'' @ [CHR 0x0A]) 1, s))"
proof (cases "acquireSession s")
  case (Pair ok s')
  show ?thesis
  proof (cases ok)
    case True
    with Pair assms ssh_pool.acquire_iff [of s] ssh_pool.balanced [of s s']
    have "sessions s < limit s" and "releaseSession s' = s" by auto
    with Pair True show ?thesis by (simp add: handleSession_def)
  next
    case False
    with Pair assms ssh_pool.acquire_iff [of s] ssh_pool.acquire_False [of s s']
    show ?thesis by (simp add: handleSession_def exitCodeGeneralError_def)
  qed
qed

theorem handleSession_balanced_witness:
  "\<forall>sys c req. snd (handleSession sys c req \<lparr>limit = 10, sessions = 10\<rparr>) = \<lparr>limit = 10, sessions = 10\<rparr>"
  by (simp add: handleSession_balanced)

text \<open>
  A terminal adds exactly the terminal's variables: to a program that takes the last entry
  for a key, as \<open>exec\<close> does, \<open>TERM\<close> is the type the client asked for and \<open>COLORTERM\<close> is
  \<open>truecolor\<close>, whatever the client or the server set them to; every other variable, the
  arguments and the directory are those of the same session without a terminal.\<close>

theorem session_command_terminal:
  assumes "Pty req = Some term"
  shows "last_value (Env (session_command sys c req)) ''TERM'' = Some term \<and>
    last_value (Env (session_command sys c req)) ''COLORTERM'' = Some ''truecolor'' \<and>
    (\<forall>key. key \<noteq> ''TERM'' \<and> key \<noteq> ''COLORTERM'' \<longrightarrow>
       last_value (Env (session_command sys c req)) key
         = last_value (Env (session_command sys c (req\<lparr>Pty := None\<rparr>))) key) \<and>
    Args (session_command sys c req) = Args (session_command sys c (req\<lparr>Pty := None\<rparr>)) \<and>
    WorkDir (session_command sys c req) = WorkDir (session_command sys c (req\<lparr>Pty := None\<rparr>))"
  using assms by (simp add: session_command_def Let_def ptyEnv_def last_value_append Cut_def)

theorem session_command_terminal_witness:
  "\<forall>sys c. last_value (Env (session_command sys c
      \<lparr>RawCommand = '''', Environ = [''TERM=dumb''], Pty = Some ''xterm''\<rparr>)) ''TERM'' = Some ''xterm''"
  using session_command_terminal
    [of "\<lparr>RawCommand = '''', Environ = [''TERM=dumb''], Pty = Some ''xterm''\<rparr>" "''xterm''"] by simp

text \<open>
  C19: A server exists only after its configuration was accepted: an invalid configuration is
  refused before the file system is touched, and a server that \<open>New\<close> returns listens on the
  configured address, whose host is a loopback name or address unless the restriction was
  lifted, presents the key at the configured path, forwards to and from loopback only, and
  has no session yet.\<close>

theorem New_guarded:
  "(case New parse gen ft sfxs c tr of
      (Inl (InvalidConfig err), tr') \<Rightarrow> validate c = Some err \<and> tr' = tr
    | (Inl (HostKeyError err), tr') \<Rightarrow>
        validate c = None \<and> loadOrCreateHostKey parse gen ft sfxs (HostKeyPath c) tr = (Inl err, tr')
    | (Inr server, tr') \<Rightarrow>
        (\<exists>key generated. loadOrCreateHostKey parse gen ft sfxs (HostKeyPath c) tr = (Inr (key, generated), tr') \<and>
           HostSigners (ssh server) = [key]) \<and>
        Addr (ssh server) = ListenAddr c \<and>
        (AllowNonLoopback c \<or> (\<exists>host port. SplitHostPort (ListenAddr c) = Ok (host, port) \<and> isLoopback host)) \<and>
        ReversePortForwardingCallback (ssh server) = Some (\<lambda>h p. isLoopback h) \<and>
        LocalPortForwardingCallback (ssh server) = Some (\<lambda>h p. isLoopback h) \<and>
        sessions (slots_of server) = 0)"
proof (cases "validate c")
  case None
  have cb: "allowReverseForward = (\<lambda>h p. isLoopback h)" "allowLocalForward = (\<lambda>h p. isLoopback h)"
    by (simp_all add: fun_eq_iff allowReverseForward_def allowLocalForward_def)
  show ?thesis
    using None validate_host [OF None]
    by (auto simp: New_def cb split: prod.split sum.split)
qed (simp add: New_def)

text \<open>
  C15: The command line cannot open the server to the network: whatever the arguments, the
  environment and the faults, a server that \<open>main\<close> starts with a nonzero \<open>--port\<close> listens on
  that port of 127.0.0.1, and one without it listens on a loopback host unless
  \<open>SSH_ALLOW_NON_LOOPBACK\<close> is set; and if the arguments are refused, no server is started and
  the file system is untouched.\<close>

theorem ras_main_loopback:
  "(case ras_main parse gen ft sfxs loggerFails args passwd env re tr of
      (code, None, tr') \<Rightarrow> (if loggerFails \<or> (\<exists>e. Parse_flags ras_flags {} args = Err e) then tr' = tr else code = 1)
    | (code, Some server, tr') \<Rightarrow>
        (\<exists>fs actual rest. Parse_flags ras_flags {} args = Ok (fs, actual, rest) \<and>
           (if int_flag fs ''port'' = 0
            then getBoolEnv env ''SSH_ALLOW_NON_LOOPBACK'' False \<or>
              (\<exists>host port. SplitHostPort (Addr (ssh server)) = Ok (host, port) \<and> isLoopback host)
            else Addr (ssh server) = ''127.0.0.1:'' @ Itoa (int_flag fs ''port'') \<and>
              1 \<le> int_flag fs ''port'' \<and> int_flag fs ''port'' \<le> 65535)))"
proof (cases "loggerFails \<or> (\<exists>e. Parse_flags ras_flags {} args = Err e)")
  case True
  then show ?thesis by (auto simp: ras_main_def split: flag_error.splits)
next
  case False
  then obtain fs actual rest where p: "Parse_flags ras_flags {} args = Ok (fs, actual, rest)"
    by (cases "Parse_flags ras_flags {} args") auto
  let ?c = "ras_config passwd env fs actual"
  have addr: "ListenAddr ?c = ''127.0.0.1:'' @ Itoa (int_flag fs ''port'')" if "int_flag fs ''port'' \<noteq> 0"
    using that by (simp add: ras_config_def Let_def)
  have allow: "AllowNonLoopback ?c = getBoolEnv env ''SSH_ALLOW_NON_LOOPBACK'' False"
    by (simp add: ras_config_def Let_def SSH_Config.LoadConfig_def)
  show ?thesis
  proof (cases "New parse gen ft sfxs ?c tr")
    case (Pair r tr')
    show ?thesis
    proof (cases r)
      case (Inl err)
      with False p Pair show ?thesis by (simp add: ras_main_def)
    next
      case (Inr server)
      note new = New_Inr [OF Pair [unfolded Inr]]
      from False p Pair Inr allow new(3) validate_host [OF new(1)]
        validate_port [OF new(1) addr port_flag_int64 [OF p]] addr
      show ?thesis by (auto simp: ras_main_def)
    qed
  qed
qed

end
