(* ===== verification/Spec2Isabelle.thy ===== *)
theory Spec2Isabelle
  imports Proxy_Lifecycle SSH_Server
begin

text \<open>
  Verification of the workspace WebSocket proxy and its SSH server.

  \<^bold>\<open>The program.\<close> A workspace pod runs two programs. The sidecar \<^verbatim>\<open>cmd/ws-proxy\<close> (package
  \<^verbatim>\<open>internal/proxy\<close>) accepts WebSocket connections, up to a limit, and bridges each to a TCP target,
  probing the target in the background for its health endpoint. The target is the second
  program, \<^verbatim>\<open>cmd/remote-access-server\<close> (package \<^verbatim>\<open>internal/sshserver\<close>), an SSH server on loopback
  that runs shells and commands, serves SFTP and forwards ports. Both are configured by their
  environment. Authentication happens in front of the sidecar, so what keeps the SSH server safe
  is that it, and every listener it opens, stays on loopback.

  \<^bold>\<open>Modelling.\<close> Functions of the source are functions here, under their names; structs are records,
  errors are values. Byte strings are lists of characters, \<open>int\<close> and durations are integers with
  the 64-bit bounds written out where a value can reach them, 32-bit counters and wait statuses
  are words. Goroutines are program counters in a state record, and a component with goroutines is
  an inductive step relation with one rule per atomic action (an atomic operation, a channel
  operation, a critical section); its properties hold in every reachable state, so in every
  interleaving. What other packages do (gorilla/websocket, gliderlabs/ssh, prometheus, the key
  parser, the network, the file system's faults, the processes of a session) is an argument or
  a nondeterministic step. Go's standard library, where results depend on it, is modelled.

  \<^bold>\<open>Library theories.\<close>
  \<^item> \<open>Go_Base\<close>, \<open>Go_Net\<close>, \<open>Go_Time\<close>, \<open>Go_Path\<close>, \<open>Go_Fmt\<close>, \<open>Go_Flag\<close>: strings and numbers, addresses
    and IP literals, durations, paths, quoting and time stamps, command-line flags; with their
    round trips.
  \<^item> \<open>Env_Reader\<close>: the contract of the environment readers (locale \<open>typed_env\<close>), which the copies in
    both packages satisfy.
  \<^item> \<open>Transition\<close>: reachability, invariants (\<open>invariant_system\<close>), refinement (\<open>simulation\<close>), limiters
    (\<open>slot_pool\<close> for one caller, \<open>slot_step\<close> for many), and counting goroutines at a program point.

  \<^bold>\<open>Sidecar.\<close>
  \<^item> \<open>Proxy_Config\<close> (\<^verbatim>\<open>config.go\<close>): \<open>LoadConfig\<close> accepts exactly what is documented and reads back a
    configuration that was written out; \<open>TargetAddr\<close> splits back for hosts without a colon only.
  \<^item> \<open>Proxy_Session_Manager\<close> (\<^verbatim>\<open>session.go\<close>): the compare-and-swap loop of \<open>Acquire\<close> returns, keeps the
    limit for any number of goroutines and refines an atomic set.
  \<^item> \<open>Proxy_Metrics\<close> (\<^verbatim>\<open>metrics.go\<close>, \<^verbatim>\<open>revalidator.go\<close>): the metrics as a log of calls.
  \<^item> \<open>Proxy_Bridge\<close> (\<^verbatim>\<open>bridge.go\<close>): each copy direction delivers a prefix of what was sent, and all of
    it while nothing fails; the byte counters are exact.
  \<^item> \<open>Proxy_Session\<close> (\<^verbatim>\<open>session.go\<close>, \<^verbatim>\<open>bridge.go\<close>): \<open>Run\<close>, \<open>pingLoop\<close> and the bridge as interleaved
    goroutines: one writer at a time, a bounded number of steps to the end once it has begun,
    and nothing left when \<open>Run\<close> returns.
  \<^item> \<open>Proxy_Target_Health\<close> (\<^verbatim>\<open>targethealth.go\<close>, \<open>probeTarget\<close> of \<^verbatim>\<open>server.go\<close>): one prober at most, none
    after a stop, and stops that return.
  \<^item> \<open>Proxy_Server\<close> (\<^verbatim>\<open>server.go\<close>, \<^verbatim>\<open>cmd/ws-proxy/main.go\<close>): routing, the handlers, slots and gauges that
    balance over all handlers, and the exit codes of the program.
  \<^item> \<open>Proxy_Lifecycle\<close> (\<^verbatim>\<open>server.go\<close>: \<open>ListenAndServe\<close>, \<open>Shutdown\<close>): prober and HTTP server together; a
    shutdown is final, whatever races with it.

  \<^bold>\<open>SSH server.\<close>
  \<^item> \<open>SSH_Config\<close> (\<^verbatim>\<open>config.go\<close>): \<open>validate\<close> accepts loopback only, decided on the parsed address.
  \<^item> \<open>SSH_Host_Key\<close> (\<^verbatim>\<open>hostkey.go\<close>): every file operation can fail and the machine can stop at any
    moment; the key file is absent or complete, and later starts return the same key.
  \<^item> \<open>SSH_Shell\<close> (\<^verbatim>\<open>shell.go\<close>): the command line, the shell and the environment of a session.
  \<^item> \<open>SSH_Session\<close> (\<^verbatim>\<open>server.go\<close>: \<open>runWithPty\<close>, \<open>runWithoutPty\<close>, \<open>finish\<close>, \<open>sessionCmd\<close>,
    \<open>terminateOnDisconnect\<close>, \<open>watchWindowSize\<close>, \<open>exitCode\<close>): a session and its processes. After the
    client is gone it ends; the terminal is not used after it was closed; one exit status is
    reported, that of the command. \<open>run_left\<close> bounds the steps that are left.
  \<^item> \<open>SSH_Forward\<close> (\<^verbatim>\<open>forward.go\<close> and the policy callbacks): requests as functions, and many requests on
    the shared table as a step relation. Listeners stay on loopback and are not lost; two runs
    show where one is closed or lost wrongly.
  \<^item> \<open>SSH_Server\<close> (\<^verbatim>\<open>server.go\<close>: \<open>New\<close>, \<open>Shutdown\<close>, the handlers and the slots;
    \<^verbatim>\<open>cmd/remote-access-server/main.go\<close>): the session limit under every interleaving, and that no
    command line or environment opens the server to the network unless that was asked for.

  This theory adds what spans both programs: they read their environments alike, and given the
  same port the sidecar dials where the server listens.

  \<^bold>\<open>Bounds.\<close> No definition uses fuel. \<open>Acquire\<close> is a partial function whose termination is proved for
  interference that stops; all other recursions terminate by a measure. The number of goroutines,
  requests, connections and processes is unbounded in every step relation. Time is not measured:
  a timer that is running may fire at any moment, so results hold for every choice of the intervals.

  \<^bold>\<open>Not modelled.\<close> Logging, which influences nothing else. The accept loops of the HTTP and SSH
  libraries behind \<open>ListenAndServe\<close>; how they end is a step or an argument of the two programs.
  \<open>generateHostKeyPEM\<close>, which only composes calls of the crypto packages; its result is an argument.
  The contents of the WebSocket, SSH and SFTP protocols, which those libraries implement. Build
  files, container images, pipelines and tests.
\<close>

section \<open>Lemmas\<close>

lemma readers_equal:
  "Proxy_Config.getEnv = SSH_Config.getEnv" "Proxy_Config.getDurationEnv = SSH_Config.getDurationEnv"
  "Proxy_Config.getIntEnv = SSH_Config.getIntEnv"
  using ssh_env.get_unique [OF proxy_env.typed_env_axioms] ssh_dur.get_unique [OF proxy_dur.typed_env_axioms]
    ssh_int.get_unique [OF proxy_int.typed_env_axioms] by simp_all

text \<open>The sidecar's configuration when at most the target port is set.\<close>

lemma LoadConfig_port:
  assumes "1 \<le> p" and "p \<le> 65535"
  shows "Proxy_Config.LoadConfig [''TARGET_PORT'' \<mapsto> Itoa p] = Ok (readConfig [''TARGET_PORT'' \<mapsto> Itoa p])"
    and "TargetAddr (readConfig [''TARGET_PORT'' \<mapsto> Itoa p]) = ''127.0.0.1:'' @ Itoa p"
proof -
  have "Atoi_opt (Itoa p) = Some p"
    using assms by (simp add: Atoi_opt_Itoa int64_ok_def minInt64_def maxInt64_def)
  then have port: "TargetPort (readConfig [''TARGET_PORT'' \<mapsto> Itoa p]) = p"
    by (simp add: readConfig_def proxy_int.get_Some)
  with assms show "Proxy_Config.LoadConfig [''TARGET_PORT'' \<mapsto> Itoa p] = Ok (readConfig [''TARGET_PORT'' \<mapsto> Itoa p])"
    by (simp add: Proxy_Config.LoadConfig_def readConfig_def proxy_int.get_None proxy_dur.get_None
        duration_units targetHealthDialTimeout_def defaultTargetHealthInterval_def)
  from port show "TargetAddr (readConfig [''TARGET_PORT'' \<mapsto> Itoa p]) = ''127.0.0.1:'' @ Itoa p"
    by (simp add: TargetAddr_def readConfig_def proxy_env.get_None)
qed

text \<open>A start of the server with its key file in place, no faults and port 2022.\<close>

definition pod_fs :: fs where
  "pod_fs = empty_fs\<lparr>names := [file_name ''/k'' \<mapsto> 0], fresh := 1\<rparr>"

definition pod_start :: "nat \<times> string Server option \<times> trace" where
  "pod_start = ras_main Some None no_faults [] False [''--port'', Itoa 2022] None
     [''SSH_HOST_KEY_PATH'' \<mapsto> ''/k''] (ServeReturned None) [pod_fs]"

lemma pod_start_serves: "\<exists>code server tr'. pod_start = (code, Some server, tr')"
proof -
  let ?c = "ras_config None [''SSH_HOST_KEY_PATH'' \<mapsto> ''/k''] (ras_flags(''port'' \<mapsto> IntFlag 2022)) {''port''}"
  have c: "validate ?c = None" "HostKeyPath ?c = ''/k''" by code_simp+
  have "\<exists>server tr1. New Some None no_faults [] ?c [pod_fs] = (Inr server, tr1)"
    by (simp add: New_def c loadOrCreateHostKey_def no_faults_def lookup_file_def pod_fs_def)
  moreover have "int64_ok 2022" by code_simp
  ultimately show ?thesis by (auto simp: pod_start_def ras_main_def port_args)
qed

section \<open>Properties across the components\<close>


text \<open>
  C17: Sidecar and server meet on every port: if the pod gives the sidecar \<open>TARGET_PORT\<close> and the
  server \<open>--port\<close> with the same number between 1 and 65535, the sidecar's configuration is
  accepted, and the address it dials is the one the started server listens on.\<close>

theorem pod_port_agrees:
  assumes "1 \<le> p" and "p \<le> 65535"
    and "ras_main parse gen ft sfxs False [''--port'', Itoa p] passwd env re tr = (code, Some server, tr')"
  shows "\<exists>cfg. Proxy_Config.LoadConfig [''TARGET_PORT'' \<mapsto> Itoa p] = Ok cfg \<and>
    TargetAddr cfg = Addr (ssh server) \<and> config server = ras_config passwd env (ras_flags(''port'' \<mapsto> IntFlag p)) {''port''}"
proof -
  let ?c = "ras_config passwd env (ras_flags(''port'' \<mapsto> IntFlag p)) {''port''}"
  have "int64_ok p" using assms by (simp add: int64_ok_def minInt64_def maxInt64_def)
  with assms obtain tr1 where "New parse gen ft sfxs ?c tr = (Inr server, tr1)"
    by (auto simp: ras_main_def port_args split: prod.splits sum.splits)
  note new = New_Inr [OF this]
  have "ListenAddr ?c = ''127.0.0.1:'' @ Itoa p"
    using assms by (simp add: ras_config_def Let_def int_flag_def)
  with new LoadConfig_port [OF assms(1,2)] show ?thesis by auto
qed

theorem pod_port_agrees_witness:
  "\<exists>code server tr' cfg. pod_start = (code, Some server, tr') \<and>
     Proxy_Config.LoadConfig [''TARGET_PORT'' \<mapsto> Itoa 2022] = Ok cfg \<and> TargetAddr cfg = Addr (ssh server)"
proof -
  obtain code server tr' where m: "pod_start = (code, Some server, tr')" using pod_start_serves by blast
  from pod_port_agrees [OF _ _ m [unfolded pod_start_def]]
  obtain cfg where "Proxy_Config.LoadConfig [''TARGET_PORT'' \<mapsto> Itoa 2022] = Ok cfg" "TargetAddr cfg = Addr (ssh server)"
    by auto
  with m show ?thesis by blast
qed

end
